theory Spec2Isabelle
  imports Complex_Main "HOL-Library.Sublist"
begin

section \<open>The dictionary lookup client of kindle\_to\_anki\<close>

text \<open>
  The development embeds \<^verbatim>\<open>dictionary_service.py\<close>: the class \<^verbatim>\<open>RateLimiter\<close> and the
  methods \<^verbatim>\<open>get_definition\<close>, \<^verbatim>\<open>get_definitions\<close>, \<^verbatim>\<open>_clean_word\<close> and
  \<^verbatim>\<open>_extract_definition\<close> of the class \<^verbatim>\<open>DictionaryService\<close>.

  Conventions of the embedding:
  \<^item> a Python \<^verbatim>\<open>str\<close> is a \<^typ>\<open>string\<close>; each \<^typ>\<open>char\<close> stands for one code point
    below 256, so the model covers the strings whose code points are all below 256;
  \<^item> a Python \<^verbatim>\<open>float\<close> (the readings of \<^verbatim>\<open>time.time()\<close>, the sleeping times) is an
    IEEE 754 double, given by its rational value; a subtraction of the program rounds
    its exact result to the nearest double;
  \<^item> an exception is a value of the type \<open>exc\<close>, and a call that can raise returns
    \<open>exc + 'a\<close> with \<open>Inl\<close> for the exception;
  \<^item> an object is a record that a method takes and returns; the clock, the number of
    calls of \<^verbatim>\<open>session.get\<close> and a log of the observable events are the fields of the
    record \<open>world\<close>, passed through every call.
\<close>

subsection \<open>Exceptions and Python values\<close>

text \<open>
  \<open>RequestException r\<close> is \<^verbatim>\<open>requests.RequestException\<close> or one of its subclasses
  (\<^verbatim>\<open>HTTPError\<close>, \<^verbatim>\<open>ConnectionError\<close>, \<^verbatim>\<open>Timeout\<close>, ...); \<open>r\<close> is the status code of
  the response it carries, \<open>None\<close> when \<^verbatim>\<open>e.response is None\<close>.
  \<open>DictionaryServiceError word n last\<close> carries the three values its message is built
  from: the word, \<^verbatim>\<open>max_retries + 1\<close> and \<^verbatim>\<open>last_exception\<close> (\<open>None\<close> for Python's
  \<^verbatim>\<open>None\<close>). \<open>OtherException\<close> is any exception of another class.
\<close>

datatype exc =
    RequestException "int option"
  | ValueError string
  | KeyError
  | IndexError
  | TypeError
  | DictionaryServiceError string int "exc option"
  | OtherException string

text \<open>
  The objects \<^verbatim>\<open>response.json()\<close> returns: \<^verbatim>\<open>None\<close>, \<^verbatim>\<open>bool\<close>, \<^verbatim>\<open>int\<close>, \<^verbatim>\<open>float\<close>,
  \<^verbatim>\<open>str\<close>, \<^verbatim>\<open>list\<close> and \<^verbatim>\<open>dict\<close> with string keys. A \<^verbatim>\<open>dict\<close> is an association list
  read by its first matching key.
\<close>

datatype pyobj =
    PyNone
  | PyBool bool
  | PyInt int
  | PyFloat rat
  | PyStr string
  | PyList "pyobj list"
  | PyDict "(string \<times> pyobj) list"

definition bnd :: "exc + 'a \<Rightarrow> ('a \<Rightarrow> exc + 'b) \<Rightarrow> exc + 'b" where
  "bnd m f = (case m of Inl e \<Rightarrow> Inl e | Inr x \<Rightarrow> f x)"

text \<open>The truth value of an object (\<^verbatim>\<open>bool(x)\<close>).\<close>

fun truthy :: "pyobj \<Rightarrow> bool" where
  "truthy PyNone = False"
| "truthy (PyBool b) = b"
| "truthy (PyInt i) = (i \<noteq> 0)"
| "truthy (PyFloat x) = (x \<noteq> 0)"
| "truthy (PyStr s) = (s \<noteq> [])"
| "truthy (PyList xs) = (xs \<noteq> [])"
| "truthy (PyDict kvs) = (kvs \<noteq> [])"

fun isinstance_list :: "pyobj \<Rightarrow> bool" where
  "isinstance_list (PyList xs) = True"
| "isinstance_list _ = False"

text \<open>\<^verbatim>\<open>k in s\<close> for two strings: \<open>k\<close> occurs in \<open>s\<close> as a contiguous block.\<close>

fun substring :: "string \<Rightarrow> string \<Rightarrow> bool" where
  "substring k [] = (k = [])"
| "substring k (c # s) = (prefix k (c # s) \<or> substring k s)"

text \<open>
  \<^verbatim>\<open>k in obj\<close> for a string \<open>k\<close>: a key of a \<^verbatim>\<open>dict\<close>, an element of a \<^verbatim>\<open>list\<close>, a
  substring of a \<^verbatim>\<open>str\<close>; \<^verbatim>\<open>TypeError\<close> for an object that is not iterable.
\<close>

fun py_in :: "string \<Rightarrow> pyobj \<Rightarrow> exc + bool" where
  "py_in k (PyDict kvs) = Inr (k \<in> set (map fst kvs))"
| "py_in k (PyList xs) = Inr (PyStr k \<in> set xs)"
| "py_in k (PyStr s) = Inr (substring k s)"
| "py_in k _ = Inl TypeError"

text \<open>
  \<^verbatim>\<open>obj[k]\<close> for a string \<open>k\<close>: the value of a \<^verbatim>\<open>dict\<close> or \<^verbatim>\<open>KeyError\<close>; \<^verbatim>\<open>TypeError\<close>
  for every other object (a \<^verbatim>\<open>list\<close> and a \<^verbatim>\<open>str\<close> take integer indices only).
\<close>

fun getitem_key :: "pyobj \<Rightarrow> string \<Rightarrow> exc + pyobj" where
  "getitem_key (PyDict kvs) k = (case map_of kvs k of None \<Rightarrow> Inl KeyError | Some v \<Rightarrow> Inr v)"
| "getitem_key _ k = Inl TypeError"

text \<open>
  \<^verbatim>\<open>obj[0]\<close>: the first element of a \<^verbatim>\<open>list\<close>, the first character of a \<^verbatim>\<open>str\<close> (as a
  \<^verbatim>\<open>str\<close>), \<^verbatim>\<open>IndexError\<close> when empty; \<^verbatim>\<open>KeyError\<close> for a \<^verbatim>\<open>dict\<close> (its keys are
  strings, never the integer 0); \<^verbatim>\<open>TypeError\<close> otherwise.
\<close>

fun getitem_0 :: "pyobj \<Rightarrow> exc + pyobj" where
  "getitem_0 (PyList xs) = (case xs of [] \<Rightarrow> Inl IndexError | x # _ \<Rightarrow> Inr x)"
| "getitem_0 (PyStr s) = (case s of [] \<Rightarrow> Inl IndexError | c # _ \<Rightarrow> Inr (PyStr [c]))"
| "getitem_0 (PyDict kvs) = Inl KeyError"
| "getitem_0 _ = Inl TypeError"

text \<open>
  \<^verbatim>\<open>k in obj and obj[k]\<close> as the condition of an \<^verbatim>\<open>if\<close>: the right operand is evaluated
  only when the left one is true, and the condition holds when its value is truthy.
\<close>

definition in_and_truthy :: "string \<Rightarrow> pyobj \<Rightarrow> exc + bool" where
  "in_and_truthy k obj =
     bnd (py_in k obj) (\<lambda>present.
       if present then bnd (getitem_key obj k) (\<lambda>v. Inr (truthy v)) else Inr False)"

subsection \<open>\<^verbatim>\<open>_extract_definition\<close>\<close>

text \<open>The body of the \<^verbatim>\<open>try\<close> block, lines 195 to 212.\<close>

definition extract_body :: "pyobj \<Rightarrow> exc + pyobj" where
  "extract_body data =
     (if \<not> truthy data \<or> \<not> isinstance_list data then Inr PyNone
      else
        bnd (getitem_0 data) (\<lambda>entry.
        bnd (in_and_truthy ''meanings'' entry) (\<lambda>c1.
        if c1 then
          bnd (getitem_key entry ''meanings'') (\<lambda>ms.
          bnd (getitem_0 ms) (\<lambda>meaning.
          bnd (in_and_truthy ''definitions'' meaning) (\<lambda>c2.
          if c2 then
            bnd (getitem_key meaning ''definitions'') (\<lambda>ds.
            bnd (getitem_0 ds) (\<lambda>definition_obj.
            bnd (py_in ''definition'' definition_obj) (\<lambda>c3.
            if c3 then getitem_key definition_obj ''definition''
            else Inr PyNone)))
          else Inr PyNone)))
        else Inr PyNone)))"

text \<open>
  The whole method: \<^verbatim>\<open>KeyError\<close>, \<^verbatim>\<open>IndexError\<close> and \<^verbatim>\<open>TypeError\<close> are caught and give
  \<^verbatim>\<open>None\<close>; an exception of another class would leave the method.
\<close>

definition extract_definition :: "pyobj \<Rightarrow> exc + pyobj" where
  "extract_definition data =
     (case extract_body data of
        Inr v \<Rightarrow> Inr v
      | Inl KeyError \<Rightarrow> Inr PyNone
      | Inl IndexError \<Rightarrow> Inr PyNone
      | Inl TypeError \<Rightarrow> Inr PyNone
      | Inl e \<Rightarrow> Inl e)"

text \<open>
  The extraction rule in the words of the specification: a definition is present only if
  the response contains at least one entry, that entry contains at least one meaning
  group, and that group contains at least one definition text; the first definition text
  found by this path is taken, and any deviation from this shape (a missing field, a wrong
  structural type, an empty array) is no definition. \<open>definition_field\<close> follows the
  path: the body is a list whose first entry is an object with a non-empty list
  \<open>meanings\<close>, whose first meaning group is an object with a non-empty list
  \<open>definitions\<close>, whose first definition object has the field \<open>definition\<close>.
  \<open>first_definition\<close> is the text in that field: \<open>None\<close> when the path does not exist
  and when what the field holds is not text.
\<close>

fun first_of_list :: "pyobj \<Rightarrow> pyobj option" where
  "first_of_list (PyList (x # xs)) = Some x"
| "first_of_list _ = None"

fun field :: "string \<Rightarrow> pyobj \<Rightarrow> pyobj option" where
  "field k (PyDict kvs) = map_of kvs k"
| "field k _ = None"

definition definition_field :: "pyobj \<Rightarrow> pyobj option" where
  "definition_field data =
     Option.bind (first_of_list data) (\<lambda>entry.
     Option.bind (field ''meanings'' entry) (\<lambda>ms.
     Option.bind (first_of_list ms) (\<lambda>meaning.
     Option.bind (field ''definitions'' meaning) (\<lambda>ds.
     Option.bind (first_of_list ds) (\<lambda>definition_obj.
     field ''definition'' definition_obj)))))"

definition first_definition :: "pyobj \<Rightarrow> string option" where
  "first_definition data =
     (case definition_field data of
        Some (PyStr s) \<Rightarrow> Some s
      | _ \<Rightarrow> None)"

subsection \<open>Strings\<close>

text \<open>
  \<^verbatim>\<open>str.strip()\<close> removes the leading and trailing characters for which
  \<^verbatim>\<open>str.isspace()\<close> holds; below 256 these are the code points 9 to 13, 28 to 32, 133
  and 160. \<^verbatim>\<open>str.lower()\<close> maps, below 256, the code points 65 to 90 and 192 to 222
  (without 215) to the code point 32 above.
\<close>

definition isspace :: "char \<Rightarrow> bool" where
  "isspace c = (of_char c \<in> {9, 10, 11, 12, 13, 28, 29, 30, 31, 32, 133, 160 :: nat})"

definition strip :: "string \<Rightarrow> string" where
  "strip s = rev (dropWhile isspace (rev (dropWhile isspace s)))"

definition lower_char :: "char \<Rightarrow> char" where
  "lower_char c =
     (let n = of_char c :: nat
      in if (65 \<le> n \<and> n \<le> 90) \<or> (192 \<le> n \<and> n \<le> 222 \<and> n \<noteq> 215)
         then char_of (n + 32) else c)"

definition lower :: "string \<Rightarrow> string" where
  "lower s = map lower_char s"

text \<open>\<^verbatim>\<open>_clean_word\<close>: \<^verbatim>\<open>word.lower().strip()\<close>.\<close>

definition clean_word :: "string \<Rightarrow> string" where
  "clean_word word = strip (lower word)"

subsection \<open>Floating-point subtraction\<close>

text \<open>
  The value of \<^verbatim>\<open>a - b\<close> for two floats is the exact difference rounded to the nearest
  double, a tie going to the even significand. \<open>bits n\<close> is the number of binary digits
  of \<open>n\<close>, \<open>ilog2 x\<close> the exponent of the binade of a positive \<open>x\<close> (the integer part of
  its logarithm to base 2). A double has 53 significant bits and its exponent is at
  least \<open>-1022\<close> (below, the numbers are subnormal and share the unit \<open>2 powi - 1074\<close>).
  A result of magnitude \<open>2 ^ 1024\<close> or more, which would be \<^verbatim>\<open>inf\<close>, is not modelled: the
  readings of a clock are far below.
\<close>

function bits :: "nat \<Rightarrow> nat" where
  "bits n = (if n = 0 then 0 else Suc (bits (n div 2)))"
  by pat_completeness auto
termination
  by (relation "measure id") auto

definition ilog2 :: "rat \<Rightarrow> int" where
  "ilog2 x =
     (let (p, q) = quotient_of x;
          e = int (bits (nat p)) - int (bits (nat q))
      in if 2 powi e \<le> x then e else e - 1)"

definition round_half_even :: "rat \<Rightarrow> int" where
  "round_half_even x =
     (let n = \<lfloor>x\<rfloor>; r = x - of_int n
      in if r < 1 / 2 then n
         else if 1 / 2 < r then n + 1
         else if even n then n else n + 1)"

definition double :: "rat \<Rightarrow> rat" where
  "double x =
     (if x = 0 then 0
      else
        let e = max (ilog2 \<bar>x\<bar>) (- 1022);
            u = 2 powi (e - 52)
        in sgn x * of_int (round_half_even (\<bar>x\<bar> / u)) * u)"

definition float_sub :: "rat \<Rightarrow> rat \<Rightarrow> rat" where
  "float_sub a b = double (a - b)"

subsection \<open>The environment: clock, sleeping, transport\<close>

text \<open>
  A response as the client reads it: its \<^verbatim>\<open>status_code\<close>, what \<^verbatim>\<open>raise_for_status()\<close>
  does (\<open>None\<close>: it returns; \<open>Some e\<close>: it raises \<open>e\<close>) and what \<^verbatim>\<open>json()\<close> does.
  A call of \<^verbatim>\<open>session.get\<close> raises or returns a response.
\<close>

record response =
  status_code :: int
  raise_for_status :: "exc option"
  json :: "exc + pyobj"

datatype outcome = Raises exc | Returns response

text \<open>
  The \<^verbatim>\<open>requests\<close> library is not part of the repository. Its \<^verbatim>\<open>Response.raise_for_status\<close>
  raises an \<^verbatim>\<open>HTTPError\<close> that carries the response itself when the status code is at
  least 400 and below 600, and returns otherwise. A response object of a test double need
  not behave so, hence the field above; \<open>requests_response\<close> singles out the responses of
  the library.
\<close>

definition requests_response :: "response \<Rightarrow> bool" where
  "requests_response r =
     (raise_for_status r =
        (if 400 \<le> status_code r \<and> status_code r < 600
         then Some (RequestException (Some (status_code r))) else None))"

text \<open>
  The environment of a run:
  \<^item> \<open>elapsed n\<close> is the time that passes while the \<open>n\<close>-th call of \<^verbatim>\<open>time.time\<close>,
    \<^verbatim>\<open>time.sleep\<close> or \<^verbatim>\<open>session.get\<close> is reached and completes (for a sleep: beyond the
    requested duration);
  \<^item> \<open>session_get n url\<close> is what the \<open>n\<close>-th call of \<^verbatim>\<open>session.get\<close> does when called with
    \<open>url\<close>;
  \<^item> \<open>quote\<close> is \<^verbatim>\<open>urllib.parse.quote\<close>, a function of the standard library.
\<close>

record env =
  elapsed :: "nat \<Rightarrow> rat"
  session_get :: "nat \<Rightarrow> string \<Rightarrow> outcome"
  quote :: "string \<Rightarrow> string"

text \<open>
  The events of a run, in the order they happen: a call of \<^verbatim>\<open>time.sleep\<close> (with the place
  of the call and its argument), the limiter recording a request at a time, a call of
  \<^verbatim>\<open>session.get\<close> with its URL.
\<close>

datatype site = RateLimit | Backoff

datatype event = Sleep site rat | Admitted rat | Get string

record world =
  now :: rat
  ticks :: nat
  calls :: nat
  trace :: "event list"

definition tick :: "env \<Rightarrow> rat \<Rightarrow> world \<Rightarrow> world" where
  "tick env d w = w\<lparr>now := now w + d + elapsed env (ticks w), ticks := Suc (ticks w)\<rparr>"

definition time_time :: "env \<Rightarrow> world \<Rightarrow> rat \<times> world" where
  "time_time env w = (let w' = tick env 0 w in (now w', w'))"

text \<open>\<^verbatim>\<open>time.sleep(d)\<close>; the program calls it with positive \<open>d\<close> only.\<close>

definition time_sleep :: "env \<Rightarrow> site \<Rightarrow> rat \<Rightarrow> world \<Rightarrow> world" where
  "time_sleep env s d w = (tick env d w)\<lparr>trace := trace w @ [Sleep s d]\<rparr>"

text \<open>\<^verbatim>\<open>self.session.get(url)\<close>.\<close>

definition get_url :: "env \<Rightarrow> string \<Rightarrow> world \<Rightarrow> outcome \<times> world" where
  "get_url env url w =
     (session_get env (calls w) url,
      (tick env 0 w)\<lparr>calls := Suc (calls w), trace := trace w @ [Get url]\<rparr>)"

subsection \<open>\<^verbatim>\<open>RateLimiter\<close>\<close>

record RateLimiter =
  max_requests_per_second :: int
  request_times :: "rat list"

text \<open>Line 41: \<^verbatim>\<open>self.request_times.append(time.time())\<close>.\<close>

definition record_request ::
  "env \<Rightarrow> RateLimiter \<Rightarrow> world \<Rightarrow> (exc + unit) \<times> RateLimiter \<times> world" where
  "record_request env self w =
     (let (t, w') = time_time env w
      in (Inr (), self\<lparr>request_times := request_times self @ [t]\<rparr>,
          w'\<lparr>trace := trace w' @ [Admitted t]\<rparr>))"

text \<open>
  \<^verbatim>\<open>wait_if_needed\<close>. The subtractions of lines 31 and 36 are subtractions of floats.
  \<^verbatim>\<open>self.request_times[0]\<close> on line 36 raises \<^verbatim>\<open>IndexError\<close> when the deque is empty,
  which happens when the ceiling is not positive.
\<close>

definition wait_if_needed ::
  "env \<Rightarrow> RateLimiter \<Rightarrow> world \<Rightarrow> (exc + unit) \<times> RateLimiter \<times> world" where
  "wait_if_needed env self w =
     (let (current_time, w1) = time_time env w;
          self1 = self\<lparr>request_times :=
                    dropWhile (\<lambda>t. float_sub current_time t \<ge> 1) (request_times self)\<rparr>
      in if int (length (request_times self1)) \<ge> max_requests_per_second self1 then
           (case request_times self1 of
              [] \<Rightarrow> (Inl IndexError, self1, w1)
            | t0 # _ \<Rightarrow>
                let sleep_time = float_sub 1 (float_sub current_time t0);
                    w2 = (if sleep_time > 0 then time_sleep env RateLimit sleep_time w1 else w1)
                in record_request env self1 w2)
         else record_request env self1 w1)"

subsection \<open>\<^verbatim>\<open>DictionaryService\<close>\<close>

record DictionaryService =
  base_url :: string
  rate_limiter :: RateLimiter
  max_retries :: int

text \<open>Lines 98 to 112: what the \<^verbatim>\<open>try\<close> block does with the response.\<close>

definition handle_response :: "response \<Rightarrow> exc + pyobj" where
  "handle_response response =
     (if status_code response = 404 then Inr PyNone
      else
        case (if 400 \<le> status_code response \<and> status_code response < 500
                 \<and> status_code response \<noteq> 429
              then raise_for_status response else None) of
          Some e \<Rightarrow> Inl e
        | None \<Rightarrow>
            (case raise_for_status response of
               Some e \<Rightarrow> Inl e
             | None \<Rightarrow> bnd (json response) (\<lambda>data. extract_definition data)))"

text \<open>Lines 95 to 112: the \<^verbatim>\<open>try\<close> block of one attempt.\<close>

definition try_block ::
  "env \<Rightarrow> DictionaryService \<Rightarrow> string \<Rightarrow> world \<Rightarrow> (exc + pyobj) \<times> world" where
  "try_block env self cleaned_word w =
     (let url = base_url self @ ''/'' @ quote env cleaned_word;
          (out, w1) = get_url env url w
      in case out of
           Raises e \<Rightarrow> (Inl e, w1)
         | Returns response \<Rightarrow> (handle_response response, w1))"

text \<open>
  Lines 118 to 124: the test of the \<^verbatim>\<open>except\<close> clause on the response the exception
  carries.
\<close>

definition client_error :: "int option \<Rightarrow> bool" where
  "client_error r = (case r of None \<Rightarrow> False | Some s \<Rightarrow> 400 \<le> s \<and> s < 500 \<and> s \<noteq> 429)"

text \<open>
  The \<^verbatim>\<open>for\<close> loop of lines 92 to 135, from the iteration \<open>attempt\<close> on. It ends by a
  \<^verbatim>\<open>return\<close>, by an exception that leaves the method, or by reaching line 138 (after a
  \<^verbatim>\<open>break\<close> or the last iteration) with the value of \<^verbatim>\<open>last_exception\<close>.
\<close>

datatype loop_exit = Return pyobj | Raise exc | Line138 "exc option"

function retry_loop ::
  "env \<Rightarrow> DictionaryService \<Rightarrow> string \<Rightarrow> int \<Rightarrow> exc option \<Rightarrow> world
     \<Rightarrow> loop_exit \<times> DictionaryService \<times> world" where
  "retry_loop env self cleaned_word attempt last_exception w =
     (if max_retries self + 1 \<le> attempt then (Line138 last_exception, self, w)
      else
        case try_block env self cleaned_word w of
          (Inr definition, w1) \<Rightarrow> (Return definition, self, w1)
        | (Inl (RequestException r), w1) \<Rightarrow>
            if client_error r then (Line138 (Some (RequestException r)), self, w1)
            else if attempt = max_retries self
            then (Line138 (Some (RequestException r)), self, w1)
            else
              let delay = 2 ^ nat attempt;
                  w2 = time_sleep env Backoff delay w1
              in (case wait_if_needed env (rate_limiter self) w2 of
                    (Inl e, rl, w3) \<Rightarrow> (Raise e, self\<lparr>rate_limiter := rl\<rparr>, w3)
                  | (Inr u, rl, w3) \<Rightarrow>
                      retry_loop env (self\<lparr>rate_limiter := rl\<rparr>) cleaned_word (attempt + 1)
                        (Some (RequestException r)) w3)
        | (Inl e, w1) \<Rightarrow> (Raise e, self, w1))"
  by pat_completeness auto
termination
  by (relation "measure (\<lambda>(env, self, cleaned_word, attempt, last_exception, w).
        nat (max_retries self + 1 - attempt))") auto

text \<open>\<^verbatim>\<open>get_definition\<close>; \<open>None\<close> is the argument \<^verbatim>\<open>None\<close>.\<close>

definition get_definition ::
  "env \<Rightarrow> DictionaryService \<Rightarrow> string option \<Rightarrow> world
     \<Rightarrow> (exc + pyobj) \<times> DictionaryService \<times> world" where
  "get_definition env self word w =
     (case word of
        None \<Rightarrow> (Inl (ValueError ''Word cannot be None''), self, w)
      | Some wd \<Rightarrow>
          if strip wd = [] then (Inl (ValueError ''Word cannot be empty''), self, w)
          else
            let cleaned_word = clean_word wd
            in (case wait_if_needed env (rate_limiter self) w of
                  (Inl e, rl, w1) \<Rightarrow> (Inl e, self\<lparr>rate_limiter := rl\<rparr>, w1)
                | (Inr u, rl, w1) \<Rightarrow>
                    (case retry_loop env (self\<lparr>rate_limiter := rl\<rparr>) cleaned_word 0 None w1 of
                       (Return d, self', w2) \<Rightarrow> (Inr d, self', w2)
                     | (Raise e, self', w2) \<Rightarrow> (Inl e, self', w2)
                     | (Line138 last_exception, self', w2) \<Rightarrow>
                         (Inl (DictionaryServiceError wd (max_retries self + 1) last_exception),
                          self', w2))))"

text \<open>
  \<^verbatim>\<open>get_definitions\<close>: the loop of lines 159 to 165 over the remaining words, with the
  list \<^verbatim>\<open>definitions\<close> built so far. The argument is a list by its type, so the test of
  line 155 never fails.
\<close>

fun definitions_loop ::
  "env \<Rightarrow> DictionaryService \<Rightarrow> string option list \<Rightarrow> pyobj list \<Rightarrow> world
     \<Rightarrow> (exc + pyobj list) \<times> DictionaryService \<times> world" where
  "definitions_loop env self [] definitions w = (Inr definitions, self, w)"
| "definitions_loop env self (word # words) definitions w =
     (case get_definition env self word w of
        (Inr d, self', w') \<Rightarrow> definitions_loop env self' words (definitions @ [d]) w'
      | (Inl (DictionaryServiceError wd n cause), self', w') \<Rightarrow>
          definitions_loop env self' words (definitions @ [PyNone]) w'
      | (Inl e, self', w') \<Rightarrow> (Inl e, self', w'))"

definition get_definitions ::
  "env \<Rightarrow> DictionaryService \<Rightarrow> string option list \<Rightarrow> world
     \<Rightarrow> (exc + pyobj list) \<times> DictionaryService \<times> world" where
  "get_definitions env self words w = definitions_loop env self words [] w"

subsection \<open>Auxiliary definitions\<close>

text \<open>
  An outcome of the \<^verbatim>\<open>try\<close> block of \<^verbatim>\<open>_extract_definition\<close> that the method turns into
  \<^verbatim>\<open>None\<close>; one step down the response (\<^verbatim>\<open>if k in obj and obj[k]: x = obj[k][0]; ...\<close>);
  the last step (\<^verbatim>\<open>if k in obj: return obj[k]\<close>).
\<close>

definition absent :: "exc + pyobj \<Rightarrow> bool" where
  "absent r = (r = Inr PyNone \<or> r = Inl KeyError \<or> r = Inl IndexError \<or> r = Inl TypeError)"

definition descend :: "string \<Rightarrow> pyobj \<Rightarrow> (pyobj \<Rightarrow> exc + pyobj) \<Rightarrow> exc + pyobj" where
  "descend k obj F =
     bnd (in_and_truthy k obj) (\<lambda>c.
       if c then bnd (getitem_key obj k) (\<lambda>xs. bnd (getitem_0 xs) F) else Inr PyNone)"

definition read_field :: "string \<Rightarrow> pyobj \<Rightarrow> exc + pyobj" where
  "read_field k obj = bnd (py_in k obj) (\<lambda>c. if c then getitem_key obj k else Inr PyNone)"

text \<open>
  The URL of a lookup (line 95); the outcome of the \<^verbatim>\<open>try\<close> block for each thing
  \<^verbatim>\<open>session.get\<close> can do; the exception an attempt ends with.
\<close>

definition lookup_url :: "env \<Rightarrow> DictionaryService \<Rightarrow> string \<Rightarrow> string" where
  "lookup_url env self wd = base_url self @ ''/'' @ quote env (clean_word wd)"

definition attempt_result :: "outcome \<Rightarrow> exc + pyobj" where
  "attempt_result out = (case out of Raises e \<Rightarrow> Inl e | Returns r \<Rightarrow> handle_response r)"

definition cause :: "outcome \<Rightarrow> exc option" where
  "cause out = (case attempt_result out of Inl e \<Rightarrow> Some e | Inr v \<Rightarrow> None)"

text \<open>An attempt after which the loop goes on (or stops only because it was the last).\<close>

definition retried :: "outcome \<Rightarrow> bool" where
  "retried out =
     (case attempt_result out of
        Inl (RequestException r) \<Rightarrow> \<not> client_error r
      | _ \<Rightarrow> False)"

text \<open>
  The events of a run without the limiter's own sleeps: what is left are the limiter's
  admissions, the transport calls and the backoff sleeps.
\<close>

fun limiter_sleep :: "event \<Rightarrow> bool" where
  "limiter_sleep (Sleep RateLimit d) = True"
| "limiter_sleep _ = False"

definition protocol :: "event list \<Rightarrow> event list" where
  "protocol es = filter (\<lambda>e. \<not> limiter_sleep e) es"

text \<open>Two states of the service with the same configuration.\<close>

definition same_config :: "DictionaryService \<Rightarrow> DictionaryService \<Rightarrow> bool" where
  "same_config self self' =
     (base_url self' = base_url self \<and> max_retries self' = max_retries self
      \<and> max_requests_per_second (rate_limiter self')
          = max_requests_per_second (rate_limiter self))"

text \<open>A word that is \<^verbatim>\<open>None\<close>, empty, or made of whitespace only.\<close>

definition blank :: "string option \<Rightarrow> bool" where
  "blank word = (case word of None \<Rightarrow> True | Some wd \<Rightarrow> list_all isspace wd)"

text \<open>
  The retryable outcomes of an attempt: \<^verbatim>\<open>session.get\<close> raises a
  \<^verbatim>\<open>RequestException\<close> that carries no response, or one whose response is no client error
  (a failure of the transport); or it returns a response with status 429 or 5xx whose
  \<^verbatim>\<open>raise_for_status()\<close> raises such an exception. \<open>failure\<close> is the exception the
  attempt then ends with.
\<close>

definition retryable_exc :: "exc \<Rightarrow> bool" where
  "retryable_exc e = (case e of RequestException r \<Rightarrow> \<not> client_error r | _ \<Rightarrow> False)"

definition retryable :: "outcome \<Rightarrow> bool" where
  "retryable out =
     (case out of
        Raises e \<Rightarrow> retryable_exc e
      | Returns r \<Rightarrow>
          (status_code r = 429 \<or> (500 \<le> status_code r \<and> status_code r < 600))
          \<and> (case raise_for_status r of None \<Rightarrow> False | Some e \<Rightarrow> retryable_exc e))"

definition failure :: "outcome \<Rightarrow> exc option" where
  "failure out = (case out of Raises e \<Rightarrow> Some e | Returns r \<Rightarrow> raise_for_status r)"

text \<open>
  The initial world of the examples, a service with the defaults of the constructor and
  environments in which no time passes but by sleeping, \<open>quote\<close> changes nothing and
  the calls of \<^verbatim>\<open>session.get\<close> do what a list says, one after the other, and then always
  the same.
\<close>

definition world0 :: world where
  "world0 = \<lparr>now = 0, ticks = 0, calls = 0, trace = []\<rparr>"

definition service0 :: DictionaryService where
  "service0 =
     \<lparr>base_url = ''https://api.dictionaryapi.dev/api/v2/entries/en'',
      rate_limiter = \<lparr>max_requests_per_second = 10, request_times = []\<rparr>,
      max_retries = 3\<rparr>"

definition scripted :: "outcome list \<Rightarrow> outcome \<Rightarrow> env" where
  "scripted outs out =
     \<lparr>elapsed = (\<lambda>n. 0),
      session_get = (\<lambda>n url. if n < length outs then outs ! n else out),
      quote = (\<lambda>s. s)\<rparr>"

definition always :: "outcome \<Rightarrow> env" where
  "always out = scripted [] out"

text \<open>A response of the \<^verbatim>\<open>requests\<close> library with the given status and body.\<close>

definition http_response :: "int \<Rightarrow> exc + pyobj \<Rightarrow> response" where
  "http_response s body =
     \<lparr>status_code = s,
      raise_for_status =
        (if 400 \<le> s \<and> s < 600 then Some (RequestException (Some s)) else None),
      json = body\<rparr>"

text \<open>
  The times at which the limiter recorded a request, oldest first; the trailing window of
  one second that ends at \<open>T\<close> (a request exactly one second old is outside, as in the test
  of line 31); a sequence of \<open>n\<close> calls of \<^verbatim>\<open>wait_if_needed\<close>, which stops at an exception.
\<close>

fun admitted :: "event list \<Rightarrow> rat list" where
  "admitted [] = []"
| "admitted (Admitted t # es) = t # admitted es"
| "admitted (e # es) = admitted es"

definition in_window :: "rat \<Rightarrow> rat \<Rightarrow> bool" where
  "in_window T t = (T - 1 < t \<and> t \<le> T)"

fun acquire_n ::
  "env \<Rightarrow> nat \<Rightarrow> RateLimiter \<Rightarrow> world \<Rightarrow> (exc + unit) \<times> RateLimiter \<times> world" where
  "acquire_n env 0 self w = (Inr (), self, w)"
| "acquire_n env (Suc n) self w =
     (case acquire_n env n self w of
        (Inl e, self', w') \<Rightarrow> (Inl e, self', w')
      | (Inr u, self', w') \<Rightarrow> wait_if_needed env self' w')"

text \<open>
  A time that is a whole multiple of \<open>1 / 2 ^ 53\<close>. Every double of at least \<open>1 / 2\<close> is one
  (the doubles from \<open>1 / 2\<close> to 1 are \<open>1 / 2 ^ 53\<close> apart, the larger ones further), so the
  readings of a wall clock, which are about \<open>2 ^ 30\<close> seconds, all are.
\<close>

definition on_grid :: "rat \<Rightarrow> bool" where
  "on_grid x = (of_int \<lfloor>x * 2 ^ 53\<rfloor> = x * 2 ^ 53)"

text \<open>What holds of a limiter with a positive ceiling between two calls.\<close>

definition limiter_inv :: "RateLimiter \<Rightarrow> world \<Rightarrow> bool" where
  "limiter_inv self w =
     (0 < max_requests_per_second self
      \<and> sorted (request_times self)
      \<and> on_grid (now w)
      \<and> list_all on_grid (request_times self)
      \<and> list_all (\<lambda>t. t \<le> now w) (request_times self)
      \<and> list_all (\<lambda>t. t \<le> now w) (admitted (trace w))
      \<and> filter (\<lambda>t. now w - t < 1) (admitted (trace w))
          = filter (\<lambda>t. now w - t < 1) (request_times self)
      \<and> int (length (filter (\<lambda>t. now w - t < 1) (request_times self)))
          \<le> max_requests_per_second self)"

text \<open>
  The lookups of a list of words one after the other, each in the state the ones before it
  left: their outcomes, and the state after the last. An outcome that the loop of
  \<^verbatim>\<open>get_definitions\<close> goes on after (a value, or a \<^verbatim>\<open>DictionaryServiceError\<close>), and the
  slot it leaves in the list.
\<close>

fun lookups ::
  "env \<Rightarrow> DictionaryService \<Rightarrow> string option list \<Rightarrow> world \<Rightarrow> (exc + pyobj) list" where
  "lookups env self [] w = []"
| "lookups env self (word # words) w =
     (case get_definition env self word w of
        (r, self', w') \<Rightarrow> r # lookups env self' words w')"

fun after_lookups ::
  "env \<Rightarrow> DictionaryService \<Rightarrow> string option list \<Rightarrow> world \<Rightarrow> DictionaryService \<times> world" where
  "after_lookups env self [] w = (self, w)"
| "after_lookups env self (word # words) w =
     (case get_definition env self word w of
        (r, self', w') \<Rightarrow> after_lookups env self' words w')"

definition caught :: "exc + pyobj \<Rightarrow> bool" where
  "caught r =
     (case r of
        Inr d \<Rightarrow> True
      | Inl (DictionaryServiceError wd n c) \<Rightarrow> True
      | Inl e \<Rightarrow> False)"

definition slot :: "exc + pyobj \<Rightarrow> pyobj" where
  "slot r = (case r of Inr d \<Rightarrow> d | Inl e \<Rightarrow> PyNone)"

text \<open>A body with one definition, and the limiter of the example for the window.\<close>

definition one_definition :: "string \<Rightarrow> pyobj" where
  "one_definition d =
     PyList [PyDict [(''meanings'',
       PyList [PyDict [(''definitions'', PyList [PyDict [(''definition'', PyStr d)]])]])]]"

definition limiter2 :: RateLimiter where
  "limiter2 = \<lparr>max_requests_per_second = 2, request_times = []\<rparr>"

text \<open>A body whose first definition object holds \<open>v\<close> in the field \<open>definition\<close>.\<close>

definition leaf_body :: "pyobj \<Rightarrow> pyobj" where
  "leaf_body v =
     PyList [PyDict [(''meanings'',
       PyList [PyDict [(''definitions'', PyList [PyDict [(''definition'', v)]])]])]]"

text \<open>A world whose clock reads a time of the year 2023, in seconds since 1970.\<close>

definition world_2023 :: world where
  "world_2023 = \<lparr>now = 1700000000, ticks = 0, calls = 0, trace = []\<rparr>"

text \<open>An environment in which a quarter of a second passes at every step.\<close>

definition slow :: env where
  "slow = \<lparr>elapsed = (\<lambda>n. 1 / 4), session_get = (\<lambda>n url. Raises (OtherException ''unused'')),
           quote = (\<lambda>s. s)\<rparr>"

text \<open>
  An environment whose clock reads \<open>1 / 2 ^ 60\<close> at the first step and 1 at the third, and
  a limiter with the ceiling 1.
\<close>

definition early :: env where
  "early =
     \<lparr>elapsed = (\<lambda>n. if n = 0 then 1 / 2 ^ 60 else if n = 2 then 1 - 1 / 2 ^ 60 else 0),
      session_get = (\<lambda>n url. Raises (OtherException ''unused'')),
      quote = (\<lambda>s. s)\<rparr>"

definition limiter1 :: RateLimiter where
  "limiter1 = \<lparr>max_requests_per_second = 1, request_times = []\<rparr>"

section \<open>The rounding of a subtraction\<close>

declare bits.simps [simp del]

lemma bits_bounds: "0 < n \<Longrightarrow> 2 ^ (bits n - 1) \<le> n \<and> n < 2 ^ bits n"
proof (induction n rule: bits.induct)
  case (1 n)
  show ?case
  proof (cases "n div 2 = 0")
    case True
    with "1.prems" have "n = 1" by (simp add: div_eq_0_iff)
    then show ?thesis by (simp add: bits.simps [of "Suc 0"] bits.simps [of 0])
  next
    case False
    with "1.prems" "1.IH" have IH: "2 ^ (bits (n div 2) - 1) \<le> n div 2" "n div 2 < 2 ^ bits (n div 2)"
      by auto
    from False have pos: "0 < bits (n div 2)" by (simp add: bits.simps [of "n div 2"])
    have b: "bits n = Suc (bits (n div 2))" using "1.prems" by (simp add: bits.simps [of n])
    from pos have "(2::nat) ^ (bits n - 1) = 2 * 2 ^ (bits (n div 2) - 1)"
      by (cases "bits (n div 2)") (simp_all add: b)
    with IH(1) have "2 ^ (bits n - 1) \<le> 2 * (n div 2)" by simp
    also have "\<dots> \<le> n" by simp
    finally have l: "2 ^ (bits n - 1) \<le> n" .
    from IH(2) have "n < 2 * 2 ^ bits (n div 2)" by linarith
    with l b show ?thesis by simp
  qed
qed


lemma two_powi_diff: "(2::rat) powi (int a - int b) = 2 ^ a / 2 ^ b"
  by (simp add: power_int_diff)

lemma ilog2_bounds:
  assumes "0 < x"
  shows "2 powi (ilog2 x) \<le> x" and "x < 2 powi (ilog2 x + 1)"
proof -
  obtain p q where pq: "quotient_of x = (p, q)" by (cases "quotient_of x") auto
  then have q: "0 < q" and x: "x = of_int p / of_int q"
    by (simp_all add: quotient_of_denom_pos quotient_of_div)
  with assms have p: "0 < p" by (simp add: zero_less_divide_iff)
  let ?a = "bits (nat p)" and ?b = "bits (nat q)"
  let ?e = "int ?a - int ?b"
  from bits_bounds [of "nat p"] p have pa: "2 ^ (?a - 1) \<le> nat p" "nat p < 2 ^ ?a" by simp_all
  from bits_bounds [of "nat q"] q have qb: "2 ^ (?b - 1) \<le> nat q" "nat q < 2 ^ ?b" by simp_all
  from pa(2) have a0: "0 < ?a" by (cases ?a) (use p in auto)
  from qb(2) have b0: "0 < ?b" by (cases ?b) (use q in auto)
  have P: "(of_int p :: rat) = of_nat (nat p)" "(of_int q :: rat) = of_nat (nat q)"
    using p q by simp_all
  have pl: "(2::rat) ^ (?a - 1) \<le> of_int p" and pu: "(of_int p :: rat) < 2 ^ ?a"
    and ql: "(2::rat) ^ (?b - 1) \<le> of_int q" and qu: "(of_int q :: rat) < 2 ^ ?b"
    unfolding P
    using pa qb
    by (metis of_nat_le_iff of_nat_numeral of_nat_power, metis of_nat_less_iff of_nat_numeral of_nat_power,
        metis of_nat_le_iff of_nat_numeral of_nat_power, metis of_nat_less_iff of_nat_numeral of_nat_power)
  have qpos: "(0::rat) < of_int q" using q by simp
  have ilog: "ilog2 x = (if 2 powi ?e \<le> x then ?e else ?e - 1)"
    by (simp add: ilog2_def pq)
  \<comment> \<open>upper bound with \<open>e + 1\<close>\<close>
  have "x < 2 ^ ?a / of_int q" unfolding x using pu qpos by (simp add: divide_strict_right_mono)
  also have "\<dots> \<le> 2 ^ ?a / 2 ^ (?b - 1)" using ql by (simp add: frac_le)
  also have "\<dots> = (2::rat) powi (?e + 1)"
  proof -
    have "?e + 1 = int ?a - int (?b - 1)" using b0 by simp
    then show ?thesis by (simp only: two_powi_diff)
  qed
  finally have up: "x < 2 powi (?e + 1)" .
  \<comment> \<open>lower bound with \<open>e - 1\<close>\<close>
  have "(2::rat) powi (?e - 1) = 2 ^ (?a - 1) / 2 ^ ?b"
  proof -
    have "?e - 1 = int (?a - 1) - int ?b" using a0 by simp
    then show ?thesis by (simp only: two_powi_diff)
  qed
  also have "\<dots> \<le> of_int p / 2 ^ ?b" using pl by (simp add: divide_right_mono)
  also have "\<dots> \<le> of_int p / of_int q" using qu qpos p by (simp add: frac_le)
  finally have lo: "2 powi (?e - 1) \<le> x" unfolding x .
  show "2 powi (ilog2 x) \<le> x" using lo by (simp add: ilog)
  show "x < 2 powi (ilog2 x + 1)" using up by (auto simp: ilog not_le)
qed


lemma two_powi_le_1: "n \<le> 0 \<Longrightarrow> (2::rat) powi n \<le> 1"
  using power_int_increasing [of n 0 "2::rat"] by simp

lemma two_powi_ge_1: "0 \<le> n \<Longrightarrow> 1 \<le> (2::rat) powi n"
  by simp

lemma two_powi_sub: "(2::rat) powi (m - n) = 2 powi m / 2 powi n"
  by (simp add: power_int_diff)

lemma round_half_even_of_int: "round_half_even (of_int j) = j"
  by (simp add: round_half_even_def)

lemma floor_le_round_half_even: "\<lfloor>x\<rfloor> \<le> round_half_even x"
  by (simp add: round_half_even_def Let_def)

text \<open>A positive number that is a whole multiple of the unit of its binade is a double.\<close>

lemma double_multiple:
  assumes "0 < x" and "x / 2 powi (max (ilog2 x) (- 1022) - 52) = of_int j"
  shows "double x = x"
proof -
  let ?u = "(2::rat) powi (max (ilog2 x) (- 1022) - 52)"
  have u: "0 < ?u" by simp
  from assms(2) u have "x = of_int j * ?u" by (simp add: field_simps)
  moreover have "double x = of_int (round_half_even (x / ?u)) * ?u"
    using assms(1) by (simp add: double_def Let_def)
  ultimately show ?thesis by (simp add: assms(2) round_half_even_of_int)
qed

lemma ilog2_ge_0:
  assumes "1 \<le> x"
  shows "0 \<le> ilog2 x"
proof (rule ccontr)
  assume "\<not> 0 \<le> ilog2 x"
  then have "ilog2 x + 1 \<le> 0" by simp
  then have "(2::rat) powi (ilog2 x + 1) \<le> 1" by (rule two_powi_le_1)
  moreover from assms have "x < 2 powi (ilog2 x + 1)" by (intro ilog2_bounds) simp
  ultimately show False using assms by simp
qed

lemma ilog2_less_0:
  assumes "0 < x" "x < 1"
  shows "ilog2 x < 0"
proof (rule ccontr)
  assume "\<not> ilog2 x < 0"
  then have "1 \<le> (2::rat) powi ilog2 x" by (intro two_powi_ge_1) simp
  moreover from assms(1) have "2 powi ilog2 x \<le> x" by (rule ilog2_bounds)
  ultimately show False using assms(2) by simp
qed

lemma double_ge_1:
  assumes "1 \<le> x"
  shows "1 \<le> double x"
proof -
  let ?e = "ilog2 x"
  let ?u = "(2::rat) powi (?e - 52)"
  from assms have pos: "0 < x" by simp
  have e0: "0 \<le> ?e" using assms by (rule ilog2_ge_0)
  then have m: "max ?e (- 1022) = ?e" by simp
  have u: "0 < ?u" by simp
  have "2 powi ?e \<le> x" using pos by (rule ilog2_bounds)
  then have "2 powi ?e / ?u \<le> x / ?u" using u by (simp add: divide_right_mono)
  moreover have "2 powi ?e / ?u = of_int (2 ^ 52)"
    using two_powi_sub [of ?e "?e - 52"] by simp
  ultimately have "of_int (2 ^ 52) \<le> x / ?u" by simp
  then have "2 ^ 52 \<le> \<lfloor>x / ?u\<rfloor>" by (simp only: le_floor_iff)
  with floor_le_round_half_even [of "x / ?u"]
  have r: "2 ^ 52 \<le> round_half_even (x / ?u)" by linarith
  have d: "double x = of_int (round_half_even (x / ?u)) * ?u"
    using pos m by (simp add: double_def Let_def)
  have "1 \<le> (2::rat) powi ?e" using e0 by (rule two_powi_ge_1)
  also have "\<dots> = of_int (2 ^ 52) * ?u"
    using two_powi_sub [of ?e "?e - 52"] by (simp add: field_simps)
  also have "\<dots> \<le> of_int (round_half_even (x / ?u)) * ?u"
  proof (rule mult_right_mono)
    show "(of_int (2 ^ 52) :: rat) \<le> of_int (round_half_even (x / ?u))"
      using r by (simp only: of_int_le_iff)
    show "0 \<le> ?u" by simp
  qed
  finally show ?thesis by (simp add: d)
qed

lemma on_grid_iff: "on_grid x \<longleftrightarrow> (\<exists>k. x = of_int k / 2 ^ 53)"
proof
  assume "on_grid x"
  then have h: "of_int \<lfloor>x * 2 ^ 53\<rfloor> = x * 2 ^ 53" unfolding on_grid_def .
  have "of_int \<lfloor>x * 2 ^ 53\<rfloor> / 2 ^ 53 = x * 2 ^ 53 / (2 ^ 53 :: rat)" by (simp only: h)
  also have "\<dots> = x" by simp
  finally have "x = of_int \<lfloor>x * 2 ^ 53\<rfloor> / 2 ^ 53" by (rule sym)
  then show "\<exists>k. x = of_int k / 2 ^ 53" ..
next
  assume "\<exists>k. x = of_int k / 2 ^ 53"
  then obtain k where "x = of_int k / 2 ^ 53" ..
  then have "x * 2 ^ 53 = of_int k" by simp
  then show "on_grid x" unfolding on_grid_def by (simp only: floor_of_int)
qed

lemma double_exact:
  assumes "0 \<le> x" "x \<le> 1" "on_grid x"
  shows "double x = x"
proof -
  consider "x = 0" | "x = 1" | "0 < x" "x < 1" using assms(1,2) by fastforce
  then show ?thesis
  proof cases
    case 1
    then show ?thesis by (simp add: double_def)
  next
    case 2
    have "0 \<le> ilog2 (1::rat)" by (rule ilog2_ge_0) simp
    moreover have "ilog2 (1::rat) \<le> 0"
    proof (rule ccontr)
      assume "\<not> ilog2 (1::rat) \<le> 0"
      then have "(2::rat) powi 1 \<le> 2 powi ilog2 1" by (intro power_int_increasing) simp_all
      moreover have "(2::rat) powi ilog2 1 \<le> 1" by (rule ilog2_bounds) simp
      ultimately show False by simp
    qed
    ultimately have e: "ilog2 (1::rat) = 0" by simp
    have "double 1 = 1"
      by (rule double_multiple [where j = "2 ^ 52"]) (simp_all add: e power_int_minus)
    with 2 show ?thesis by simp
  next
    case 3
    from assms(3) obtain k where k: "x = of_int k / 2 ^ 53" unfolding on_grid_iff ..
    let ?e = "max (ilog2 x) (- 1022)"
    have "ilog2 x < 0" using 3 by (rule ilog2_less_0)
    then have e: "0 \<le> - 1 - ?e" by simp
    have "x / 2 powi (?e - 52) = of_int k * (2 powi (- 53) / 2 powi (?e - 52))"
      by (simp add: k power_int_minus field_simps)
    also have "2 powi (- 53) / 2 powi (?e - 52) = (2::rat) powi (- 1 - ?e)"
      using two_powi_sub [of "- 53" "?e - 52"] by (simp add: algebra_simps)
    also have "\<dots> = of_int (2 ^ nat (- 1 - ?e))"
      using e by (simp add: power_int_nonneg_exp)
    finally have "x / 2 powi (?e - 52) = of_int (k * 2 ^ nat (- 1 - ?e))" by simp
    with 3(1) show ?thesis by (rule double_multiple)
  qed
qed

lemma double_on_grid:
  assumes "double t = t" "1 / 2 \<le> t"
  shows "on_grid t"
proof -
  let ?e = "ilog2 t"
  from assms(2) have pos: "0 < t" by simp
  have e: "- 1 \<le> ?e"
  proof (rule ccontr)
    assume "\<not> - 1 \<le> ?e"
    then have "(2::rat) powi (?e + 1) \<le> 2 powi (- 1)" by (intro power_int_increasing) simp_all
    moreover from pos have "t < 2 powi (?e + 1)" by (rule ilog2_bounds)
    ultimately show False using assms(2) by (simp add: power_int_minus)
  qed
  then have m: "max ?e (- 1022) = ?e" by simp
  obtain m where t: "t = of_int m * 2 powi (?e - 52)"
    using assms(1) pos m by (simp add: double_def Let_def) metis
  have "(2::rat) powi (?e - 52) = 2 powi (?e + 1) / 2 ^ 53"
    using two_powi_sub [of "?e + 1" 53] by simp
  also have "(2::rat) powi (?e + 1) = of_int (2 ^ nat (?e + 1))"
    using e by (simp add: power_int_nonneg_exp)
  finally have u: "(2::rat) powi (?e - 52) = of_int (2 ^ nat (?e + 1)) / 2 ^ 53" .
  have "t = of_int m * (of_int (2 ^ nat (?e + 1)) / 2 ^ 53)"
    by (subst u [symmetric]) (rule t)
  then have "t = of_int (m * 2 ^ nat (?e + 1)) / 2 ^ 53"
    by (simp only: of_int_mult times_divide_eq_right)
  then show ?thesis unfolding on_grid_iff ..
qed

lemma on_grid_diff: "on_grid a \<Longrightarrow> on_grid b \<Longrightarrow> on_grid (a - b)"
  unfolding on_grid_iff
  by (metis diff_divide_distrib of_int_diff)

lemma on_grid_add: "on_grid a \<Longrightarrow> on_grid b \<Longrightarrow> on_grid (a + b)"
  unfolding on_grid_iff
  by (metis add_divide_distrib of_int_add)

lemma on_grid_of_int: "on_grid (of_int n)"
  unfolding on_grid_iff
  by (rule exI [of _ "n * 2 ^ 53"]) simp

lemma ilog2_unique:
  assumes "0 < x" "2 powi e \<le> x" "x < 2 powi (e + 1)"
  shows "ilog2 x = e"
proof (rule ccontr)
  assume ne: "ilog2 x \<noteq> e"
  from assms(1) have b: "2 powi ilog2 x \<le> x" "x < 2 powi (ilog2 x + 1)"
    by (rule ilog2_bounds)+
  show False
  proof (cases "ilog2 x < e")
    case True
    then have "(2::rat) powi (ilog2 x + 1) \<le> 2 powi e" by (intro power_int_increasing) simp_all
    with b(2) assms(2) show False by simp
  next
    case False
    with ne have "(2::rat) powi (e + 1) \<le> 2 powi ilog2 x" by (intro power_int_increasing) simp_all
    with b(1) assms(3) show False by simp
  qed
qed

text \<open>A difference just below 1 that rounds to 1.\<close>

lemma double_below_one: "double (1152921504606846975 / 1152921504606846976) = 1"
proof -
  have e: "ilog2 (1152921504606846975 / 1152921504606846976) = - 1"
    by (rule ilog2_unique) simp_all
  have f: "\<lfloor>(1152921504606846975::rat) / 128\<rfloor> = 9007199254740991"
    by (rule floor_unique) simp_all
  show ?thesis
    by (simp add: double_def e Let_def round_half_even_def f)
qed

section \<open>Extraction of the definition\<close>

lemma bnd_Inr: "bnd (Inr x) f = f x"
  by (simp add: bnd_def)

lemma bnd_Inl: "bnd (Inl e) f = Inl e"
  by (simp add: bnd_def)

lemma map_of_member: "map_of kvs k = Some v \<Longrightarrow> k \<in> fst ` set kvs"
  by (induction kvs) (auto split: if_splits)

lemma read_field_some: "field k obj = Some v \<Longrightarrow> read_field k obj = Inr v"
  by (cases obj) (auto simp: read_field_def bnd_def dest: map_of_member)

lemma read_field_none: "field k obj = None \<Longrightarrow> absent (read_field k obj)"
  by (cases obj) (auto simp: read_field_def bnd_def absent_def map_of_eq_None_iff)

lemma descend_some:
  assumes "field k obj = Some xs" "first_of_list xs = Some x"
  shows "descend k obj F = F x"
  using assms
  by (cases obj; cases xs rule: first_of_list.cases)
     (auto simp: descend_def in_and_truthy_def bnd_def dest: map_of_member)

lemma descend_not_dict: "field k obj = None \<Longrightarrow> absent (descend k obj F)"
  by (cases obj) (auto simp: descend_def absent_def in_and_truthy_def bnd_def map_of_eq_None_iff)

lemma descend_none:
  assumes "field k obj = Some xs" "first_of_list xs = None" "\<And>s. absent (F (PyStr s))"
  shows "absent (descend k obj F)"
proof (cases obj)
  case (PyDict kvs)
  with assms(1) have m: "map_of kvs k = Some xs" by simp
  then have "k \<in> fst ` set kvs" by (rule map_of_member)
  with m PyDict assms(2,3) show ?thesis
    by (cases xs rule: first_of_list.cases)
       (auto simp: descend_def in_and_truthy_def bnd_def absent_def split: list.splits)
qed (use assms in auto)

lemma extract_body_descend:
  "extract_body data =
     (case first_of_list data of
        None \<Rightarrow> Inr PyNone
      | Some entry \<Rightarrow>
          descend ''meanings'' entry (\<lambda>meaning.
          descend ''definitions'' meaning (\<lambda>definition_obj.
          read_field ''definition'' definition_obj)))"
  by (cases data rule: first_of_list.cases)
     (simp_all add: extract_body_def descend_def read_field_def [abs_def] bnd_Inr)

lemma absent_read_field_str: "absent (read_field k (PyStr s))"
  by (rule read_field_none) simp

lemma absent_descend_str: "absent (descend k (PyStr s) F)"
  by (rule descend_not_dict) simp

lemma catch_absent: "absent r \<Longrightarrow>
  (case r of Inr v \<Rightarrow> Inr v | Inl KeyError \<Rightarrow> Inr PyNone | Inl IndexError \<Rightarrow> Inr PyNone
     | Inl TypeError \<Rightarrow> Inr PyNone | Inl e \<Rightarrow> Inl e) = Inr PyNone"
  by (auto simp: absent_def)

lemma extract_body_first:
  "case definition_field data of
     Some v \<Rightarrow> extract_body data = Inr v
   | None \<Rightarrow> absent (extract_body data)"
proof (cases "first_of_list data")
  case None
  then show ?thesis
    by (simp add: definition_field_def extract_body_descend absent_def)
next
  case entry: (Some entry)
  show ?thesis
  proof (cases "field ''meanings'' entry")
    case None
    with entry show ?thesis
      by (simp add: definition_field_def extract_body_descend descend_not_dict)
  next
    case ms: (Some ms)
    show ?thesis
    proof (cases "first_of_list ms")
      case None
      with entry ms show ?thesis
        by (simp add: definition_field_def extract_body_descend descend_none absent_descend_str)
    next
      case meaning: (Some meaning)
      show ?thesis
      proof (cases "field ''definitions'' meaning")
        case None
        with entry ms meaning show ?thesis
          by (simp add: definition_field_def extract_body_descend descend_some descend_not_dict)
      next
        case ds: (Some ds)
        show ?thesis
        proof (cases "first_of_list ds")
          case None
          with entry ms meaning ds show ?thesis
            by (simp add: definition_field_def extract_body_descend descend_some descend_none
                  absent_read_field_str)
        next
          case obj: (Some definition_obj)
          with entry ms meaning ds show ?thesis
            by (cases "field ''definition'' definition_obj")
               (simp_all add: definition_field_def extract_body_descend descend_some
                  read_field_some read_field_none)
        qed
      qed
    qed
  qed
qed

lemma extract_definition_eq:
  "extract_definition data =
     Inr (case definition_field data of Some v \<Rightarrow> v | None \<Rightarrow> PyNone)"
proof (cases "definition_field data")
  case None
  with extract_body_first [of data] have "absent (extract_body data)" by simp
  with None show ?thesis by (simp add: extract_definition_def catch_absent)
next
  case (Some v)
  with extract_body_first [of data] show ?thesis by (simp add: extract_definition_def)
qed

text \<open>Where the path of the specification exists and holds text, that text is returned.\<close>

lemma extract_definition_text:
  assumes "first_definition data = Some s"
  shows "extract_definition data = Inr (PyStr s)"
proof -
  from assms have "definition_field data = Some (PyStr s)"
    by (auto simp: first_definition_def split: option.splits pyobj.splits)
  then show ?thesis by (simp add: extract_definition_eq)
qed

text \<open>Where the path does not exist, \<^verbatim>\<open>None\<close> is returned.\<close>

lemma extract_definition_no_path:
  assumes "definition_field data = None"
  shows "extract_definition data = Inr PyNone"
  using assms by (simp add: extract_definition_eq)

lemma definition_field_leaf_body: "definition_field (leaf_body v) = Some v"
  by (simp add: definition_field_def leaf_body_def)

text \<open>
  Claim C7. The claim says that \<^verbatim>\<open>_extract_definition\<close> returns the first definition text
  found through first entry, first meaning group, first definition object, and \<^verbatim>\<open>None\<close>
  for a body of any other shape, a value of the wrong type included, without raising. The
  method never raises, returns the text where the path holds one and \<^verbatim>\<open>None\<close> where the
  path does not exist (the three lemmas above). It fails the claim where the field
  \<open>definition\<close> holds an object that is not text: lines 209 and 210 test that the field is
  there and return what it holds, whatever its type, where the specification has no
  definition. The theorem is what the method returns for such a body; the example takes the
  number 5.
\<close>

theorem extract_definition_leaf:
  "extract_definition (leaf_body v) = Inr v"
  by (simp add: extract_definition_eq definition_field_leaf_body)

theorem extract_definition_leaf_witness:
  "first_definition (leaf_body (PyInt 5)) = None
   \<and> extract_definition (leaf_body (PyInt 5)) = Inr (PyInt 5)
   \<and> extract_definition (leaf_body (PyInt 5)) \<noteq> Inr PyNone"
  using extract_definition_leaf [of "PyInt 5"]
  by (simp add: first_definition_def definition_field_leaf_body)

section \<open>The environment, the limiter and the retry loop\<close>

declare retry_loop.simps [simp del]

lemma tick_simps:
  "calls (tick env d w) = calls w"
  "trace (tick env d w) = trace w"
  "now (tick env d w) = now w + d + elapsed env (ticks w)"
  "ticks (tick env d w) = Suc (ticks w)"
  by (simp_all add: tick_def)

lemma time_sleep_simps:
  "calls (time_sleep env s d w) = calls w"
  "trace (time_sleep env s d w) = trace w @ [Sleep s d]"
  "now (time_sleep env s d w) = now w + d + elapsed env (ticks w)"
  "ticks (time_sleep env s d w) = Suc (ticks w)"
  by (simp_all add: time_sleep_def tick_simps)

lemma time_time_eq:
  "time_time env w = (now w + elapsed env (ticks w), tick env 0 w)"
  by (simp add: time_time_def Let_def tick_simps)

lemma record_request_eq:
  "record_request env rl w =
     (Inr (), rl\<lparr>request_times := request_times rl @ [now w + elapsed env (ticks w)]\<rparr>,
      (tick env 0 w)\<lparr>trace := trace w @ [Admitted (now w + elapsed env (ticks w))]\<rparr>)"
  by (simp add: record_request_def time_time_eq tick_simps)

lemma wait_if_needed_returns:
  assumes "0 < max_requests_per_second rl"
  shows "\<exists>rl' w' ls t. wait_if_needed env rl w = (Inr (), rl', w')
           \<and> max_requests_per_second rl' = max_requests_per_second rl
           \<and> calls w' = calls w
           \<and> trace w' = trace w @ ls @ [Admitted t] \<and> protocol ls = []"
proof -
  let ?ct = "now w + elapsed env (ticks w)"
  let ?ts = "dropWhile (\<lambda>t. float_sub ?ct t \<ge> 1) (request_times rl)"
  show ?thesis
  proof (cases "int (length ?ts) \<ge> max_requests_per_second rl")
    case False
    then show ?thesis
      by (simp add: wait_if_needed_def time_time_eq record_request_eq tick_simps protocol_def)
  next
    case True
    with assms obtain t0 rest where ts: "?ts = t0 # rest"
      by (cases ?ts) auto
    let ?d = "float_sub 1 (float_sub ?ct t0)"
    show ?thesis
    proof (cases "?d > 0")
      case sleep: True
      have "protocol [Sleep RateLimit ?d] = []"
        by (simp add: protocol_def)
      with True ts sleep show ?thesis
        by (simp add: wait_if_needed_def time_time_eq record_request_eq tick_simps
              time_sleep_simps Let_def)
    next
      case False
      with True ts show ?thesis
        by (simp add: wait_if_needed_def time_time_eq record_request_eq tick_simps
              protocol_def Let_def)
    qed
  qed
qed

lemma try_block_eq:
  "try_block env self cw w =
     (attempt_result (session_get env (calls w) (base_url self @ ''/'' @ quote env cw)),
      (tick env 0 w)\<lparr>calls := Suc (calls w),
         trace := trace w @ [Get (base_url self @ ''/'' @ quote env cw)]\<rparr>)"
  by (simp add: try_block_def get_url_def attempt_result_def Let_def split: outcome.splits)

lemma retried_cases:
  assumes "retried out"
  obtains r where "attempt_result out = Inl (RequestException r)" "\<not> client_error r"
  using assms by (auto simp: retried_def split: sum.splits exc.splits)

text \<open>The loop is over: the range is exhausted.\<close>

lemma retry_loop_exhausted:
  "max_retries self + 1 \<le> attempt \<Longrightarrow>
   retry_loop env self cw attempt last_exception w = (Line138 last_exception, self, w)"
  by (simp add: retry_loop.simps)

text \<open>An attempt that returns a value ends the loop.\<close>

lemma retry_loop_return:
  assumes "attempt \<le> max_retries self"
    and "attempt_result (session_get env (calls w) (base_url self @ ''/'' @ quote env cw)) = Inr v"
  shows "\<exists>w'. retry_loop env self cw attempt last_exception w = (Return v, self, w')
           \<and> calls w' = calls w + 1
           \<and> trace w' = trace w @ [Get (base_url self @ ''/'' @ quote env cw)]"
  using assms by (subst retry_loop.simps) (simp add: try_block_eq tick_simps)

text \<open>An attempt that ends in a client error other than 429 breaks the loop.\<close>

lemma retry_loop_client_error:
  assumes "attempt \<le> max_retries self"
    and "attempt_result (session_get env (calls w) (base_url self @ ''/'' @ quote env cw))
           = Inl (RequestException r)"
    and "client_error r"
  shows "\<exists>w'. retry_loop env self cw attempt last_exception w
             = (Line138 (Some (RequestException r)), self, w')
           \<and> calls w' = calls w + 1
           \<and> trace w' = trace w @ [Get (base_url self @ ''/'' @ quote env cw)]"
  using assms by (subst retry_loop.simps) (simp add: try_block_eq tick_simps)

text \<open>The last attempt, ending in an exception that would be retried.\<close>

lemma retry_loop_last:
  assumes "attempt = max_retries self"
    and "retried (session_get env (calls w) (base_url self @ ''/'' @ quote env cw))"
  shows "\<exists>w'. retry_loop env self cw attempt last_exception w
             = (Line138 (cause (session_get env (calls w) (base_url self @ ''/'' @ quote env cw))),
                self, w')
           \<and> calls w' = calls w + 1
           \<and> trace w' = trace w @ [Get (base_url self @ ''/'' @ quote env cw)]"
proof -
  from assms(2) obtain r where
    r: "attempt_result (session_get env (calls w) (base_url self @ ''/'' @ quote env cw))
          = Inl (RequestException r)" "\<not> client_error r"
    by (rule retried_cases)
  with assms(1) show ?thesis
    by (subst retry_loop.simps) (simp add: try_block_eq tick_simps cause_def)
qed

text \<open>An earlier attempt, ending in an exception that is retried: one turn of the loop.\<close>

lemma retry_loop_step:
  assumes "0 \<le> attempt" "attempt < max_retries self"
    and "retried (session_get env (calls w) (base_url self @ ''/'' @ quote env cw))"
    and "0 < max_requests_per_second (rate_limiter self)"
  shows "\<exists>self' w' ls t.
           retry_loop env self cw attempt last_exception w
             = retry_loop env self' cw (attempt + 1)
                 (cause (session_get env (calls w) (base_url self @ ''/'' @ quote env cw))) w'
           \<and> same_config self self'
           \<and> calls w' = calls w + 1
           \<and> trace w' = trace w @ [Get (base_url self @ ''/'' @ quote env cw),
                 Sleep Backoff (2 ^ nat attempt)] @ ls @ [Admitted t]
           \<and> protocol ls = []"
proof -
  let ?url = "base_url self @ ''/'' @ quote env cw"
  let ?w1 = "(tick env 0 w)\<lparr>calls := Suc (calls w), trace := trace w @ [Get ?url]\<rparr>"
  let ?w2 = "time_sleep env Backoff (2 ^ nat attempt) ?w1"
  from assms(3) obtain r where
    r: "attempt_result (session_get env (calls w) ?url) = Inl (RequestException r)"
       "\<not> client_error r"
    by (rule retried_cases)
  from wait_if_needed_returns [OF assms(4), of env ?w2] obtain rl' w' ls t where
    wait: "wait_if_needed env (rate_limiter self) ?w2 = (Inr (), rl', w')"
      "max_requests_per_second rl' = max_requests_per_second (rate_limiter self)"
      "calls w' = calls ?w2" "trace w' = trace ?w2 @ ls @ [Admitted t]" "protocol ls = []"
    by blast
  have "retry_loop env self cw attempt last_exception w
          = retry_loop env (self\<lparr>rate_limiter := rl'\<rparr>) cw (attempt + 1)
              (Some (RequestException r)) w'"
    using assms(2) r wait(1)
    by (subst retry_loop.simps) (simp add: try_block_eq Let_def)
  moreover have "same_config self (self\<lparr>rate_limiter := rl'\<rparr>)"
    using wait(2) by (simp add: same_config_def)
  moreover have "calls w' = calls w + 1"
    using wait(3) by (simp add: time_sleep_simps)
  moreover have "trace w' = trace w @ [Get ?url, Sleep Backoff (2 ^ nat attempt)] @ ls @ [Admitted t]"
    using wait(4) by (simp add: time_sleep_simps)
  ultimately show ?thesis
    using r(1) wait(5) by (auto simp: cause_def)
qed


text \<open>Every attempt from \<open>attempt\<close> on is retried: the loop runs to its end.\<close>

lemma retry_loop_all_retried:
  assumes "k = nat (max_retries self - attempt)" "0 \<le> attempt" "attempt \<le> max_retries self"
    and "0 < max_requests_per_second (rate_limiter self)"
    and "u = base_url self @ ''/'' @ quote env cw"
    and "\<forall>i\<le>k. retried (session_get env (calls w + i) u)"
  shows "\<exists>self' w'. retry_loop env self cw attempt last_exception w
             = (Line138 (cause (session_get env (calls w + k) u)), self', w')
           \<and> calls w' = calls w + k + 1"
  using assms
proof (induction k arbitrary: self attempt w last_exception)
  case 0
  then have "attempt = max_retries self" by simp
  moreover from 0 have "retried (session_get env (calls w) (base_url self @ ''/'' @ quote env cw))"
    by simp
  ultimately show ?case
    using retry_loop_last [of attempt self env w cw last_exception] 0(5) by auto
next
  case (Suc k)
  then have lt: "attempt < max_retries self" by simp
  from Suc.prems have r0: "retried (session_get env (calls w) (base_url self @ ''/'' @ quote env cw))"
    by (metis add.right_neutral le0)
  from retry_loop_step [OF Suc.prems(2) lt r0 Suc.prems(4), of last_exception]
  obtain self' w' where
    step: "retry_loop env self cw attempt last_exception w
             = retry_loop env self' cw (attempt + 1)
                 (cause (session_get env (calls w) (base_url self @ ''/'' @ quote env cw))) w'"
      "same_config self self'" "calls w' = calls w + 1"
    by blast
  have k: "k = nat (max_retries self' - (attempt + 1))"
    using Suc.prems(1) step(2) by (simp add: same_config_def)
  have u: "u = base_url self' @ ''/'' @ quote env cw"
    using Suc.prems(5) step(2) by (simp add: same_config_def)
  have all: "\<forall>i\<le>k. retried (session_get env (calls w' + i) u)"
  proof (intro allI impI)
    fix i assume "i \<le> k"
    then have "Suc i \<le> Suc k" by simp
    with Suc.prems(6) have "retried (session_get env (calls w + Suc i) u)" by blast
    then show "retried (session_get env (calls w' + i) u)" by (simp add: step(3))
  qed
  from Suc.IH [OF k _ _ _ u all, of "cause (session_get env (calls w) (base_url self @ ''/'' @ quote env cw))"]
    Suc.prems(2) lt Suc.prems(4) step(2)
  obtain self'' w'' where
    "retry_loop env self' cw (attempt + 1)
        (cause (session_get env (calls w) (base_url self @ ''/'' @ quote env cw))) w'
       = (Line138 (cause (session_get env (calls w' + k) u)), self'', w'')"
    "calls w'' = calls w' + k + 1"
    by (auto simp: same_config_def)
  with step show ?case by (simp add: add.commute add.left_commute)
qed

text \<open>A valid word: the limiter is asked once, then the loop starts at attempt 0.\<close>

lemma get_definition_valid:
  assumes "strip wd \<noteq> []" "0 < max_requests_per_second (rate_limiter self)"
  shows "\<exists>self1 w1 ls t.
           same_config self self1 \<and> calls w1 = calls w
           \<and> trace w1 = trace w @ ls @ [Admitted t] \<and> protocol ls = []
           \<and> get_definition env self (Some wd) w =
               (case retry_loop env self1 (clean_word wd) 0 None w1 of
                  (Return d, self', w2) \<Rightarrow> (Inr d, self', w2)
                | (Raise e, self', w2) \<Rightarrow> (Inl e, self', w2)
                | (Line138 last_exception, self', w2) \<Rightarrow>
                    (Inl (DictionaryServiceError wd (max_retries self + 1) last_exception),
                     self', w2))"
proof -
  from wait_if_needed_returns [OF assms(2), of env w] obtain rl' w' ls t where
    wait: "wait_if_needed env (rate_limiter self) w = (Inr (), rl', w')"
      "max_requests_per_second rl' = max_requests_per_second (rate_limiter self)"
      "calls w' = calls w" "trace w' = trace w @ ls @ [Admitted t]" "protocol ls = []"
    by blast
  have "same_config self (self\<lparr>rate_limiter := rl'\<rparr>)"
    using wait(2) by (simp add: same_config_def)
  moreover have "get_definition env self (Some wd) w =
      (case retry_loop env (self\<lparr>rate_limiter := rl'\<rparr>) (clean_word wd) 0 None w' of
         (Return d, self', w2) \<Rightarrow> (Inr d, self', w2)
       | (Raise e, self', w2) \<Rightarrow> (Inl e, self', w2)
       | (Line138 last_exception, self', w2) \<Rightarrow>
           (Inl (DictionaryServiceError wd (max_retries self + 1) last_exception), self', w2))"
    using assms(1) wait(1) by (simp add: get_definition_def)
  ultimately show ?thesis using wait(3,4,5) by blast
qed


lemma protocol_append: "protocol (xs @ ys) = protocol xs @ protocol ys"
  by (simp add: protocol_def)

lemma protocol_simps:
  "protocol [] = []"
  "protocol (Admitted t # es) = Admitted t # protocol es"
  "protocol (Get u # es) = Get u # protocol es"
  "protocol (Sleep Backoff d # es) = Sleep Backoff d # protocol es"
  "protocol (Sleep RateLimit d # es) = protocol es"
  by (simp_all add: protocol_def)

lemma get_definition_first_return:
  assumes "strip wd \<noteq> []" "0 < max_requests_per_second (rate_limiter self)"
    and "0 \<le> max_retries self"
    and "attempt_result (session_get env (calls w) (lookup_url env self wd)) = Inr v"
  shows "\<exists>self' w' new t.
           get_definition env self (Some wd) w = (Inr v, self', w')
           \<and> calls w' = calls w + 1
           \<and> trace w' = trace w @ new
           \<and> protocol new = [Admitted t, Get (lookup_url env self wd)]"
proof -
  from get_definition_valid [OF assms(1,2), where env = env and w = w] obtain self1 w1 ls t where
    v: "same_config self self1" "calls w1 = calls w"
      "trace w1 = trace w @ ls @ [Admitted t]" "protocol ls = []"
      "get_definition env self (Some wd) w =
         (case retry_loop env self1 (clean_word wd) 0 None w1 of
            (Return d, self', w2) \<Rightarrow> (Inr d, self', w2)
          | (Raise e, self', w2) \<Rightarrow> (Inl e, self', w2)
          | (Line138 last_exception, self', w2) \<Rightarrow>
              (Inl (DictionaryServiceError wd (max_retries self + 1) last_exception), self', w2))"
    by blast
  have url: "base_url self1 @ ''/'' @ quote env (clean_word wd) = lookup_url env self wd"
    using v(1) by (simp add: lookup_url_def same_config_def)
  have "0 \<le> max_retries self1" using assms(3) v(1) by (simp add: same_config_def)
  from retry_loop_return [OF this, where env = env and w = w1 and cw = "clean_word wd" and v = v and last_exception = None] assms(4) v(2) url
  obtain w' where
    "retry_loop env self1 (clean_word wd) 0 None w1 = (Return v, self1, w')"
    "calls w' = calls w1 + 1" "trace w' = trace w1 @ [Get (lookup_url env self wd)]"
    by auto
  with v show ?thesis by (simp add: protocol_append protocol_simps)
qed

lemma get_definition_first_client_error:
  assumes "strip wd \<noteq> []" "0 < max_requests_per_second (rate_limiter self)"
    and "0 \<le> max_retries self"
    and "attempt_result (session_get env (calls w) (lookup_url env self wd))
           = Inl (RequestException r)"
    and "client_error r"
  shows "\<exists>self' w' new t.
           get_definition env self (Some wd) w
             = (Inl (DictionaryServiceError wd (max_retries self + 1)
                       (Some (RequestException r))), self', w')
           \<and> calls w' = calls w + 1
           \<and> trace w' = trace w @ new
           \<and> protocol new = [Admitted t, Get (lookup_url env self wd)]"
proof -
  from get_definition_valid [OF assms(1,2), where env = env and w = w] obtain self1 w1 ls t where
    v: "same_config self self1" "calls w1 = calls w"
      "trace w1 = trace w @ ls @ [Admitted t]" "protocol ls = []"
      "get_definition env self (Some wd) w =
         (case retry_loop env self1 (clean_word wd) 0 None w1 of
            (Return d, self', w2) \<Rightarrow> (Inr d, self', w2)
          | (Raise e, self', w2) \<Rightarrow> (Inl e, self', w2)
          | (Line138 last_exception, self', w2) \<Rightarrow>
              (Inl (DictionaryServiceError wd (max_retries self + 1) last_exception), self', w2))"
    by blast
  have url: "base_url self1 @ ''/'' @ quote env (clean_word wd) = lookup_url env self wd"
    using v(1) by (simp add: lookup_url_def same_config_def)
  have "0 \<le> max_retries self1" using assms(3) v(1) by (simp add: same_config_def)
  from retry_loop_client_error [OF this, where env = env and w = w1 and cw = "clean_word wd" and r = r and last_exception = None] assms(4,5) v(2) url
  obtain w' where
    "retry_loop env self1 (clean_word wd) 0 None w1
       = (Line138 (Some (RequestException r)), self1, w')"
    "calls w' = calls w1 + 1" "trace w' = trace w1 @ [Get (lookup_url env self wd)]"
    by auto
  with v show ?thesis by (simp add: protocol_append protocol_simps)
qed

lemma get_definition_all_retried:
  assumes "strip wd \<noteq> []" "0 < max_requests_per_second (rate_limiter self)"
    and "0 \<le> max_retries self"
    and "\<forall>i\<le>nat (max_retries self).
           retried (session_get env (calls w + i) (lookup_url env self wd))"
  shows "\<exists>self' w'.
           get_definition env self (Some wd) w
             = (Inl (DictionaryServiceError wd (max_retries self + 1)
                  (cause (session_get env (calls w + nat (max_retries self))
                     (lookup_url env self wd)))), self', w')
           \<and> calls w' = calls w + nat (max_retries self) + 1"
proof -
  from get_definition_valid [OF assms(1,2), where env = env and w = w] obtain self1 w1 ls t where
    v: "same_config self self1" "calls w1 = calls w"
      "get_definition env self (Some wd) w =
         (case retry_loop env self1 (clean_word wd) 0 None w1 of
            (Return d, self', w2) \<Rightarrow> (Inr d, self', w2)
          | (Raise e, self', w2) \<Rightarrow> (Inl e, self', w2)
          | (Line138 last_exception, self', w2) \<Rightarrow>
              (Inl (DictionaryServiceError wd (max_retries self + 1) last_exception), self', w2))"
    by blast
  have url: "lookup_url env self wd = base_url self1 @ ''/'' @ quote env (clean_word wd)"
    using v(1) by (simp add: lookup_url_def same_config_def)
  have k: "nat (max_retries self) = nat (max_retries self1 - 0)"
    using v(1) by (simp add: same_config_def)
  have m: "0 \<le> max_retries self1" "0 < max_requests_per_second (rate_limiter self1)"
    using assms(2,3) v(1) by (simp_all add: same_config_def)
  have all: "\<forall>i\<le>nat (max_retries self).
           retried (session_get env (calls w1 + i) (lookup_url env self wd))"
    using assms(4) v(2) by simp
  from retry_loop_all_retried [OF k _ m(1) m(2) url all, where last_exception = None]
  obtain self' w' where
    "retry_loop env self1 (clean_word wd) 0 None w1
       = (Line138 (cause (session_get env (calls w1 + nat (max_retries self))
            (lookup_url env self wd))), self', w')"
    "calls w' = calls w1 + nat (max_retries self) + 1"
    by auto
  with v show ?thesis by simp
qed

section \<open>Outcomes of an attempt, strings, examples\<close>

lemma attempt_result_404:
  "status_code r = 404 \<Longrightarrow> attempt_result (Returns r) = Inr PyNone"
  by (simp add: attempt_result_def handle_response_def)

lemma attempt_result_client_error:
  assumes "requests_response r" "400 \<le> status_code r" "status_code r < 500"
    and "status_code r \<noteq> 429" "status_code r \<noteq> 404"
  shows "attempt_result (Returns r) = Inl (RequestException (Some (status_code r)))"
  using assms by (simp add: attempt_result_def handle_response_def requests_response_def)

lemma attempt_result_success:
  assumes "status_code r \<noteq> 404" "raise_for_status r = None" "json r = Inr data"
  shows "attempt_result (Returns r) = extract_definition data"
  using assms by (simp add: attempt_result_def handle_response_def bnd_Inr)

lemma retryable_retried:
  assumes "retryable out"
  shows "retried out" and "cause out = failure out"
  using assms
  by (auto simp: retryable_def retryable_exc_def retried_def cause_def failure_def
        attempt_result_def handle_response_def client_error_def
      split: outcome.splits exc.splits option.splits if_splits)

lemma strip_empty_iff: "strip s = [] \<longleftrightarrow> list_all isspace s"
proof
  assume "strip s = []"
  then have all: "\<forall>c\<in>set (dropWhile isspace s). isspace c"
    by (simp add: strip_def dropWhile_eq_Nil_conv)
  have "dropWhile isspace s = []"
  proof (rule ccontr)
    assume ne: "dropWhile isspace s \<noteq> []"
    then have "\<not> isspace (hd (dropWhile isspace s))" by (rule hd_dropWhile)
    moreover from ne have "hd (dropWhile isspace s) \<in> set (dropWhile isspace s)" by simp
    ultimately show False using all by blast
  qed
  then show "list_all isspace s" by (simp add: dropWhile_eq_Nil_conv list_all_iff)
next
  assume "list_all isspace s"
  then have d: "dropWhile isspace s = []" by (simp add: dropWhile_eq_Nil_conv list_all_iff)
  show "strip s = []" unfolding strip_def d by simp
qed

text \<open>Facts about the inputs of the examples.\<close>

lemma strip_test: "strip ''test'' \<noteq> []"
  by (simp add: strip_def isspace_def)

lemma service0_simps:
  "0 < max_requests_per_second (rate_limiter service0)" "max_retries service0 = 3"
  by (simp_all add: service0_def)

lemma world0_simps: "calls world0 = 0" "trace world0 = []"
  by (simp_all add: world0_def)

lemma session_get_always: "session_get (always out) n url = out"
  by (simp add: always_def scripted_def)

lemma http_response_simps:
  "status_code (http_response s body) = s"
  "json (http_response s body) = body"
  "requests_response (http_response s body)"
  by (simp_all add: http_response_def requests_response_def)

lemma get_definition_blank:
  assumes "blank word"
  shows "get_definition env self word w =
           (Inl (ValueError (if word = None then ''Word cannot be None''
                             else ''Word cannot be empty'')), self, w)"
proof (cases word)
  case None
  then show ?thesis by (simp add: get_definition_def)
next
  case (Some wd)
  with assms have "strip wd = []" by (simp add: blank_def strip_empty_iff)
  with Some show ?thesis by (simp add: get_definition_def)
qed

text \<open>The definitions that evaluate a run on given inputs.\<close>

lemmas run_simps =
  get_definitions_def get_definition_def wait_if_needed_def time_time_def record_request_def
  tick_def time_sleep_def try_block_def get_url_def handle_response_def retry_loop.simps
  client_error_def scripted_def always_def service0_def world0_def http_response_def one_definition_def
  strip_def isspace_def clean_word_def lower_def lower_char_def Let_def bnd_def

text \<open>
  The claims about the attempts of a lookup suppose a word that passes the test of lines 79
  to 83, a limiter with a positive ceiling and \<^verbatim>\<open>max_retries\<close> that is not negative.
  Without the second (and a limiter that starts empty) or the third, no attempt takes place:
  the lookup ends before the first call of the transport.
\<close>

lemma no_attempt_without_capacity:
  assumes "strip wd \<noteq> []" "max_requests_per_second (rate_limiter self) \<le> 0"
    and "request_times (rate_limiter self) = []"
  shows "\<exists>self' w'. get_definition env self (Some wd) w = (Inl IndexError, self', w')
           \<and> calls w' = calls w"
  using assms
  by (simp add: get_definition_def wait_if_needed_def time_time_eq tick_simps)

lemma no_attempt_without_retries:
  assumes "strip wd \<noteq> []" "0 < max_requests_per_second (rate_limiter self)"
    and "max_retries self < 0"
  shows "\<exists>self' w'. get_definition env self (Some wd) w
             = (Inl (DictionaryServiceError wd (max_retries self + 1) None), self', w')
           \<and> calls w' = calls w"
proof -
  from get_definition_valid [OF assms(1,2), where env = env and w = w]
  obtain self1 w1 where
    v: "same_config self self1" "calls w1 = calls w"
      "get_definition env self (Some wd) w =
         (case retry_loop env self1 (clean_word wd) 0 None w1 of
            (Return d, self', w2) \<Rightarrow> (Inr d, self', w2)
          | (Raise e, self', w2) \<Rightarrow> (Inl e, self', w2)
          | (Line138 last_exception, self', w2) \<Rightarrow>
              (Inl (DictionaryServiceError wd (max_retries self + 1) last_exception), self', w2))"
    by blast
  from assms(3) v(1) have "max_retries self1 + 1 \<le> 0" by (simp add: same_config_def)
  then have "retry_loop env self1 (clean_word wd) 0 None w1 = (Line138 None, self1, w1)"
    by (rule retry_loop_exhausted)
  with v show ?thesis by simp
qed

section \<open>Lookups of one word\<close>

text \<open>
  Claim C8. For a word that is \<^verbatim>\<open>None\<close>, empty or made of whitespace only,
  \<^verbatim>\<open>get_definition\<close> raises \<^verbatim>\<open>ValueError\<close> and leaves the service and the world as they
  were: no call of the transport, no event, and the limiter's deque unchanged.
\<close>

theorem blank_word_rejected:
  assumes "blank word"
  shows "get_definition env self word w =
           (Inl (ValueError (if word = None then ''Word cannot be None''
                             else ''Word cannot be empty'')), self, w)"
  using assms by (rule get_definition_blank)

theorem blank_word_rejected_witness:
  "blank None \<and> blank (Some '''') \<and> blank (Some ''   '')
   \<and> get_definition (always (Returns (http_response 200 (Inr PyNone)))) service0 None world0
       = (Inl (ValueError ''Word cannot be None''), service0, world0)
   \<and> get_definition (always (Returns (http_response 200 (Inr PyNone)))) service0 (Some '''') world0
       = (Inl (ValueError ''Word cannot be empty''), service0, world0)
   \<and> get_definition (always (Returns (http_response 200 (Inr PyNone)))) service0 (Some ''   '') world0
       = (Inl (ValueError ''Word cannot be empty''), service0, world0)"
proof -
  let ?env = "always (Returns (http_response 200 (Inr PyNone)))"
  have b: "blank None" "blank (Some '''')" "blank (Some ''   '')"
    by (simp_all add: blank_def isspace_def)
  from blank_word_rejected [OF b(1), of ?env service0 world0]
    blank_word_rejected [OF b(2), of ?env service0 world0]
    blank_word_rejected [OF b(3), of ?env service0 world0]
  show ?thesis using b by simp
qed

text \<open>
  Claim C6. A lookup whose first attempt gets a response with status 404 returns \<^verbatim>\<open>None\<close>
  at once: it raises nothing, it calls the transport exactly once, and between the
  limiter's admission and that call nothing else happens (no backoff, no retry). The first
  three hypotheses say that a first attempt takes place: the word passes the test of lines
  79 to 83, the limiter has a positive ceiling and \<^verbatim>\<open>max_retries\<close> is not negative.
\<close>

theorem not_found_returns_none:
  assumes "strip wd \<noteq> []"
    and "0 < max_requests_per_second (rate_limiter self)" and "0 \<le> max_retries self"
    and "session_get env (calls w) (lookup_url env self wd) = Returns r"
    and "status_code r = 404"
  shows "\<exists>self' w' new t.
           get_definition env self (Some wd) w = (Inr PyNone, self', w')
           \<and> calls w' = calls w + 1
           \<and> trace w' = trace w @ new
           \<and> protocol new = [Admitted t, Get (lookup_url env self wd)]"
proof (rule get_definition_first_return [OF assms(1-3)])
  show "attempt_result (session_get env (calls w) (lookup_url env self wd)) = Inr PyNone"
    using assms(4,5) by (simp add: attempt_result_404)
qed

theorem not_found_returns_none_witness:
  "status_code (http_response 404 (Inr (PyDict [(''title'', PyStr ''No Definitions Found'')]))) = 404
   \<and> fst (get_definition
        (always (Returns (http_response 404 (Inr (PyDict [(''title'', PyStr ''No Definitions Found'')])))))
        service0 (Some ''xyz'') world0) = Inr PyNone
   \<and> calls (snd (snd (get_definition
        (always (Returns (http_response 404 (Inr (PyDict [(''title'', PyStr ''No Definitions Found'')])))))
        service0 (Some ''xyz'') world0))) = 1"
proof -
  let ?r = "http_response 404 (Inr (PyDict [(''title'', PyStr ''No Definitions Found'')]))"
  have "strip ''xyz'' \<noteq> []" by (simp add: strip_def isspace_def)
  moreover have "0 < max_requests_per_second (rate_limiter service0)" "0 \<le> max_retries service0"
    by (simp_all add: service0_def)
  moreover have "session_get (always (Returns ?r)) (calls world0)
      (lookup_url (always (Returns ?r)) service0 ''xyz'') = Returns ?r"
    by (simp add: always_def scripted_def)
  moreover have s: "status_code ?r = 404" by (simp add: http_response_def)
  ultimately obtain self' w' where
    "get_definition (always (Returns ?r)) service0 (Some ''xyz'') world0 = (Inr PyNone, self', w')"
    "calls w' = calls world0 + 1"
    using not_found_returns_none [of "''xyz''" service0 "always (Returns ?r)" world0 ?r]
    by blast
  with s show ?thesis by (simp add: world0_def)
qed

text \<open>
  Claim C4. A lookup whose first attempt gets a response of the \<^verbatim>\<open>requests\<close> library with a
  client-error status, from 400 to 499 and other than 429, raises
  \<^verbatim>\<open>DictionaryServiceError\<close>, wrapping the \<^verbatim>\<open>HTTPError\<close> of that response, after exactly
  one call of the transport and without a retry. The status 404 is no client error here:
  it is the not-found outcome of line 99, set apart before the test of line 103 (claim
  C6). The first three hypotheses say that a first attempt takes place.
\<close>

theorem client_error_terminal:
  assumes "strip wd \<noteq> []"
    and "0 < max_requests_per_second (rate_limiter self)" and "0 \<le> max_retries self"
    and "session_get env (calls w) (lookup_url env self wd) = Returns r"
    and "requests_response r"
    and "400 \<le> status_code r" and "status_code r < 500"
    and "status_code r \<noteq> 429" and "status_code r \<noteq> 404"
  shows "\<exists>self' w' new t.
           get_definition env self (Some wd) w
             = (Inl (DictionaryServiceError wd (max_retries self + 1)
                       (Some (RequestException (Some (status_code r))))), self', w')
           \<and> calls w' = calls w + 1
           \<and> trace w' = trace w @ new
           \<and> protocol new = [Admitted t, Get (lookup_url env self wd)]"
proof (rule get_definition_first_client_error [OF assms(1-3)])
  show "attempt_result (session_get env (calls w) (lookup_url env self wd))
          = Inl (RequestException (Some (status_code r)))"
    using assms(4-9) by (simp add: attempt_result_client_error)
  show "client_error (Some (status_code r))"
    using assms(6-8) by (simp add: client_error_def)
qed

theorem client_error_terminal_witness:
  "requests_response (http_response 400 (Inr PyNone))
   \<and> fst (get_definition (always (Returns (http_response 400 (Inr PyNone))))
        service0 (Some ''test'') world0)
       = Inl (DictionaryServiceError ''test'' 4 (Some (RequestException (Some 400))))
   \<and> calls (snd (snd (get_definition (always (Returns (http_response 400 (Inr PyNone))))
        service0 (Some ''test'') world0))) = 1"
proof -
  let ?r = "http_response 400 (Inr PyNone)"
  obtain self' w' where
    "get_definition (always (Returns ?r)) service0 (Some ''test'') world0
       = (Inl (DictionaryServiceError ''test'' (max_retries service0 + 1)
            (Some (RequestException (Some (status_code ?r))))), self', w')"
    "calls w' = calls world0 + 1"
    using client_error_terminal [of "''test''" service0 "always (Returns ?r)" world0 ?r]
    by (auto simp: strip_test service0_simps session_get_always http_response_simps)
  then show ?thesis by (simp add: service0_simps world0_simps http_response_simps)
qed

text \<open>
  Claim C5, amended. When every attempt gets a response with status 400 whose
  \<^verbatim>\<open>raise_for_status()\<close> raises an \<^verbatim>\<open>HTTPError\<close> that carries no response (as the mock
  object of the test for the status 400 does), the test of lines 118 to 124 does not see
  the status: every attempt is retried, the transport is called \<^verbatim>\<open>max_retries + 1\<close> times
  (4 with the default) and \<^verbatim>\<open>DictionaryServiceError\<close> is raised. (As stated, for every
  response with status 400, the claim fails for a response of the \<^verbatim>\<open>requests\<close> library,
  whose \<^verbatim>\<open>HTTPError\<close> carries the response: the loop breaks after one call.)
\<close>

theorem bare_http_400_retried:
  assumes "strip wd \<noteq> []"
    and "0 < max_requests_per_second (rate_limiter self)" and "0 \<le> max_retries self"
    and "\<forall>i\<le>nat (max_retries self). \<exists>r.
           session_get env (calls w + i) (lookup_url env self wd) = Returns r
           \<and> status_code r = 400 \<and> raise_for_status r = Some (RequestException None)"
  shows "\<exists>self' w'.
           get_definition env self (Some wd) w
             = (Inl (DictionaryServiceError wd (max_retries self + 1)
                       (Some (RequestException None))), self', w')
           \<and> calls w' = calls w + nat (max_retries self) + 1"
proof -
  have bare: "retried out \<and> cause out = Some (RequestException None)"
    if "out = Returns r" "status_code r = 400" "raise_for_status r = Some (RequestException None)"
    for out r
    using that
    by (simp add: retried_def cause_def attempt_result_def handle_response_def client_error_def)
  have "\<forall>i\<le>nat (max_retries self).
          retried (session_get env (calls w + i) (lookup_url env self wd))"
    using assms(4) bare by blast
  from get_definition_all_retried [OF assms(1-3) this] obtain self' w' where
    res: "get_definition env self (Some wd) w
       = (Inl (DictionaryServiceError wd (max_retries self + 1)
            (cause (session_get env (calls w + nat (max_retries self))
               (lookup_url env self wd)))), self', w')"
      "calls w' = calls w + nat (max_retries self) + 1"
    by blast
  from assms(4) bare
  have "cause (session_get env (calls w + nat (max_retries self)) (lookup_url env self wd))
          = Some (RequestException None)"
    by blast
  with res show ?thesis by simp
qed

theorem bare_http_400_retried_witness:
  "max_retries service0 = 3
   \<and> fst (get_definition
        (always (Returns \<lparr>status_code = 400, raise_for_status = Some (RequestException None),
                          json = Inr PyNone\<rparr>))
        service0 (Some ''test'') world0)
       = Inl (DictionaryServiceError ''test'' 4 (Some (RequestException None)))
   \<and> calls (snd (snd (get_definition
        (always (Returns \<lparr>status_code = 400, raise_for_status = Some (RequestException None),
                          json = Inr PyNone\<rparr>))
        service0 (Some ''test'') world0))) = 4"
proof -
  let ?r = "\<lparr>status_code = 400, raise_for_status = Some (RequestException None),
             json = Inr PyNone\<rparr>"
  obtain self' w' where
    "get_definition (always (Returns ?r)) service0 (Some ''test'') world0
       = (Inl (DictionaryServiceError ''test'' (max_retries service0 + 1)
            (Some (RequestException None))), self', w')"
    "calls w' = calls world0 + nat (max_retries service0) + 1"
    using bare_http_400_retried [of "''test''" service0 "always (Returns ?r)" world0]
    by (auto simp: strip_test service0_simps session_get_always)
  then show ?thesis by (simp add: service0_simps world0_simps)
qed

text \<open>
  Every attempt gets a response of the \<^verbatim>\<open>requests\<close> library with status 400, the service
  has the default \<^verbatim>\<open>max_retries = 3\<close>, and the transport is called once, not four times.
\<close>

theorem http_400_retried_counterexample:
  "status_code (http_response 400 (Inr PyNone)) = 400
   \<and> requests_response (http_response 400 (Inr PyNone))
   \<and> max_retries service0 = 3
   \<and> calls world0 = 0
   \<and> calls (snd (snd (get_definition (always (Returns (http_response 400 (Inr PyNone))))
        service0 (Some ''test'') world0))) = 1"
proof -
  let ?r = "http_response 400 (Inr PyNone)"
  have "attempt_result (session_get (always (Returns ?r)) (calls world0)
          (lookup_url (always (Returns ?r)) service0 ''test''))
        = Inl (RequestException (Some 400))"
    using attempt_result_client_error [of ?r]
    by (simp add: session_get_always http_response_simps)
  moreover have "client_error (Some 400)" by (simp add: client_error_def)
  ultimately obtain self' w' where
    "get_definition (always (Returns ?r)) service0 (Some ''test'') world0
       = (Inl (DictionaryServiceError ''test'' (max_retries service0 + 1)
            (Some (RequestException (Some 400)))), self', w')"
    "calls w' = calls world0 + 1"
    using get_definition_first_client_error
      [of "''test''" service0 "always (Returns ?r)" world0 "Some 400"]
    by (auto simp: strip_test service0_simps)
  then show ?thesis by (simp add: service0_simps world0_simps http_response_simps)
qed

text \<open>
  Claim C2. When the \<^verbatim>\<open>max_retries + 1\<close> attempts of a lookup all end in a retryable
  outcome (a response with status 5xx or 429 whose \<^verbatim>\<open>raise_for_status()\<close> raises, or a
  failure of the transport), \<^verbatim>\<open>get_definition\<close> raises \<^verbatim>\<open>DictionaryServiceError\<close> wrapping
  the exception of the last attempt, and the transport has been called exactly
  \<^verbatim>\<open>max_retries + 1\<close> times (4 with the default 3). The first three hypotheses say that
  the attempts take place.
\<close>

theorem retries_exhausted:
  assumes "strip wd \<noteq> []"
    and "0 < max_requests_per_second (rate_limiter self)" and "0 \<le> max_retries self"
    and "\<forall>i\<le>nat (max_retries self).
           retryable (session_get env (calls w + i) (lookup_url env self wd))"
  shows "\<exists>self' w' e.
           failure (session_get env (calls w + nat (max_retries self)) (lookup_url env self wd))
             = Some e
           \<and> get_definition env self (Some wd) w
               = (Inl (DictionaryServiceError wd (max_retries self + 1) (Some e)), self', w')
           \<and> calls w' = calls w + nat (max_retries self) + 1"
proof -
  let ?last = "session_get env (calls w + nat (max_retries self)) (lookup_url env self wd)"
  have "\<forall>i\<le>nat (max_retries self).
          retried (session_get env (calls w + i) (lookup_url env self wd))"
    using assms(4) retryable_retried(1) by blast
  from get_definition_all_retried [OF assms(1-3) this] obtain self' w' where
    res: "get_definition env self (Some wd) w
       = (Inl (DictionaryServiceError wd (max_retries self + 1) (cause ?last)), self', w')"
      "calls w' = calls w + nat (max_retries self) + 1"
    by blast
  from assms(4) have last: "retryable ?last" by blast
  then have c: "cause ?last = failure ?last" by (rule retryable_retried(2))
  from last obtain e where "failure ?last = Some e"
    by (auto simp: retryable_def failure_def split: outcome.splits option.splits)
  with res c show ?thesis by simp
qed

theorem retries_exhausted_witness:
  "retryable (Returns (http_response 503 (Inr PyNone)))
   \<and> max_retries service0 = 3
   \<and> fst (get_definition (always (Returns (http_response 503 (Inr PyNone))))
        service0 (Some ''test'') world0)
       = Inl (DictionaryServiceError ''test'' 4 (Some (RequestException (Some 503))))
   \<and> calls (snd (snd (get_definition (always (Returns (http_response 503 (Inr PyNone))))
        service0 (Some ''test'') world0))) = 4"
proof -
  let ?r = "http_response 503 (Inr PyNone)"
  have r: "retryable (Returns ?r)"
    by (simp add: retryable_def retryable_exc_def client_error_def http_response_def)
  have f: "failure (Returns ?r) = Some (RequestException (Some 503))"
    by (simp add: failure_def http_response_def)
  obtain self' w' e where
    "failure (Returns ?r) = Some e"
    "get_definition (always (Returns ?r)) service0 (Some ''test'') world0
       = (Inl (DictionaryServiceError ''test'' (max_retries service0 + 1) (Some e)), self', w')"
    "calls w' = calls world0 + nat (max_retries service0) + 1"
    using retries_exhausted [of "''test''" service0 "always (Returns ?r)" world0] r
    by (auto simp: strip_test service0_simps session_get_always)
  with r f show ?thesis by (simp add: service0_simps world0_simps)
qed

text \<open>
  Claim C3. When the first two attempts of a lookup end in retryable outcomes and the third
  gets a response that is accepted (not 404, \<^verbatim>\<open>raise_for_status()\<close> returns, \<^verbatim>\<open>json()\<close>
  returns \<open>data\<close>), \<^verbatim>\<open>get_definition\<close> returns what \<^verbatim>\<open>_extract_definition\<close> makes of
  \<open>data\<close>, the transport is called exactly three times, and the run is: admission by the
  limiter, call, sleep of 1, admission, call, sleep of 2, admission, call (the limiter's
  own sleeps left aside). \<^verbatim>\<open>max_retries\<close> is at least 2, so that a third attempt exists.
\<close>

theorem third_attempt_succeeds:
  assumes "strip wd \<noteq> []"
    and "0 < max_requests_per_second (rate_limiter self)" and "2 \<le> max_retries self"
    and "retryable (session_get env (calls w) (lookup_url env self wd))"
    and "retryable (session_get env (calls w + 1) (lookup_url env self wd))"
    and "session_get env (calls w + 2) (lookup_url env self wd) = Returns r"
    and "status_code r \<noteq> 404" and "raise_for_status r = None" and "json r = Inr data"
  shows "\<exists>self' w' new t0 t1 t2.
           get_definition env self (Some wd) w = (extract_definition data, self', w')
           \<and> calls w' = calls w + 3
           \<and> trace w' = trace w @ new
           \<and> protocol new =
               [Admitted t0, Get (lookup_url env self wd), Sleep Backoff 1,
                Admitted t1, Get (lookup_url env self wd), Sleep Backoff 2,
                Admitted t2, Get (lookup_url env self wd)]"
proof -
  let ?u = "lookup_url env self wd"
  let ?cw = "clean_word wd"
  obtain v where v: "extract_definition data = Inr v"
    by (simp add: extract_definition_eq)
  from get_definition_valid [OF assms(1,2), where env = env and w = w]
  obtain self0 w0 ls0 t0 where
    s0: "same_config self self0" "calls w0 = calls w"
      "trace w0 = trace w @ ls0 @ [Admitted t0]" "protocol ls0 = []"
      "get_definition env self (Some wd) w =
         (case retry_loop env self0 ?cw 0 None w0 of
            (Return d, self', w2) \<Rightarrow> (Inr d, self', w2)
          | (Raise e, self', w2) \<Rightarrow> (Inl e, self', w2)
          | (Line138 last_exception, self', w2) \<Rightarrow>
              (Inl (DictionaryServiceError wd (max_retries self + 1) last_exception), self', w2))"
    by blast
  have c0: "base_url self0 @ ''/'' @ quote env ?cw = ?u" "2 \<le> max_retries self0"
    "0 < max_requests_per_second (rate_limiter self0)"
    using s0(1) assms(2,3) by (simp_all add: lookup_url_def same_config_def)
  have "retried (session_get env (calls w0) (base_url self0 @ ''/'' @ quote env ?cw))"
    using assms(4) s0(2) c0(1) by (simp add: retryable_retried(1))
  from retry_loop_step [OF _ _ this c0(3), where attempt = 0 and last_exception = None] c0(1,2)
  obtain self1 w1 ls1 t1 where
    s1: "retry_loop env self0 ?cw 0 None w0
           = retry_loop env self1 ?cw 1 (cause (session_get env (calls w0) ?u)) w1"
      "same_config self0 self1" "calls w1 = calls w0 + 1"
      "trace w1 = trace w0 @ [Get ?u, Sleep Backoff 1] @ ls1 @ [Admitted t1]"
      "protocol ls1 = []"
    by auto
  have c1: "base_url self1 @ ''/'' @ quote env ?cw = ?u" "2 \<le> max_retries self1"
    "0 < max_requests_per_second (rate_limiter self1)"
    using s1(2) c0 by (simp_all add: same_config_def)
  have "retried (session_get env (calls w1) (base_url self1 @ ''/'' @ quote env ?cw))"
    using assms(5) s0(2) s1(3) c1(1) by (simp add: retryable_retried(1))
  from retry_loop_step [OF _ _ this c1(3), where attempt = 1
      and last_exception = "cause (session_get env (calls w0) ?u)"] c1(1,2)
  obtain self2 w2 ls2 t2 where
    s2: "retry_loop env self1 ?cw 1 (cause (session_get env (calls w0) ?u)) w1
           = retry_loop env self2 ?cw 2 (cause (session_get env (calls w1) ?u)) w2"
      "same_config self1 self2" "calls w2 = calls w1 + 1"
      "trace w2 = trace w1 @ [Get ?u, Sleep Backoff 2] @ ls2 @ [Admitted t2]"
      "protocol ls2 = []"
    by auto
  have c2: "base_url self2 @ ''/'' @ quote env ?cw = ?u" "2 \<le> max_retries self2"
    using s2(2) c1 by (simp_all add: same_config_def)
  have "attempt_result (session_get env (calls w2) (base_url self2 @ ''/'' @ quote env ?cw))
          = Inr v"
    using assms(6-9) s0(2) s1(3) s2(3) c2(1) v by (simp add: attempt_result_success)
  from retry_loop_return [OF c2(2) this,
      where last_exception = "cause (session_get env (calls w1) ?u)"] c2(1)
  obtain w3 where
    s3: "retry_loop env self2 ?cw 2 (cause (session_get env (calls w1) ?u)) w2
           = (Return v, self2, w3)"
      "calls w3 = calls w2 + 1" "trace w3 = trace w2 @ [Get ?u]"
    by auto
  have res: "get_definition env self (Some wd) w = (extract_definition data, self2, w3)"
    using s0(5) s1(1) s2(1) s3(1) v by simp
  have calls: "calls w3 = calls w + 3"
    using s0(2) s1(3) s2(3) s3(2) by simp
  let ?new = "ls0 @ [Admitted t0] @ [Get ?u, Sleep Backoff 1] @ ls1 @ [Admitted t1]
                @ [Get ?u, Sleep Backoff 2] @ ls2 @ [Admitted t2] @ [Get ?u]"
  have tr: "trace w3 = trace w @ ?new"
    using s0(3) s1(4) s2(4) s3(3) by simp
  have pr: "protocol ?new =
      [Admitted t0, Get ?u, Sleep Backoff 1, Admitted t1, Get ?u, Sleep Backoff 2,
       Admitted t2, Get ?u]"
    using s0(4) s1(5) s2(5) by (simp add: protocol_append protocol_simps)
  from res calls tr pr show ?thesis by blast
qed

theorem third_attempt_succeeds_witness:
  "retryable (Returns (http_response 503 (Inr PyNone)))
   \<and> fst (get_definition
        (scripted [Returns (http_response 503 (Inr PyNone)), Returns (http_response 503 (Inr PyNone))]
           (Returns (http_response 200 (Inr (PyList [PyDict [(''meanings'',
              PyList [PyDict [(''definitions'',
                PyList [PyDict [(''definition'', PyStr ''test definition'')]])]])]])))))
        service0 (Some ''test'') world0) = Inr (PyStr ''test definition'')
   \<and> calls (snd (snd (get_definition
        (scripted [Returns (http_response 503 (Inr PyNone)), Returns (http_response 503 (Inr PyNone))]
           (Returns (http_response 200 (Inr (PyList [PyDict [(''meanings'',
              PyList [PyDict [(''definitions'',
                PyList [PyDict [(''definition'', PyStr ''test definition'')]])]])]])))))
        service0 (Some ''test'') world0))) = 3"
proof -
  let ?f = "Returns (http_response 503 (Inr PyNone))"
  let ?data = "PyList [PyDict [(''meanings'',
              PyList [PyDict [(''definitions'',
                PyList [PyDict [(''definition'', PyStr ''test definition'')]])]])]]"
  let ?r = "http_response 200 (Inr ?data)"
  let ?env = "scripted [?f, ?f] (Returns ?r)"
  have f: "retryable ?f"
    by (simp add: retryable_def retryable_exc_def client_error_def http_response_def)
  have g: "session_get ?env (calls world0) (lookup_url ?env service0 ''test'') = ?f"
    "session_get ?env (calls world0 + 1) (lookup_url ?env service0 ''test'') = ?f"
    "session_get ?env (calls world0 + 2) (lookup_url ?env service0 ''test'') = Returns ?r"
    by (simp_all add: scripted_def world0_simps)
  have r: "status_code ?r \<noteq> 404" "raise_for_status ?r = None" "json ?r = Inr ?data"
    by (simp_all add: http_response_def)
  have d: "extract_definition ?data = Inr (PyStr ''test definition'')"
    by (simp add: extract_definition_eq definition_field_def)
  obtain self' w' where
    "get_definition ?env service0 (Some ''test'') world0 = (extract_definition ?data, self', w')"
    "calls w' = calls world0 + 3"
    using third_attempt_succeeds [of "''test''" service0 ?env world0 ?r ?data]
      f g r strip_test service0_simps
    by auto
  with f d show ?thesis by (simp add: world0_simps)
qed

section \<open>The sliding window of the limiter\<close>

lemma admitted_append: "admitted (xs @ ys) = admitted xs @ admitted ys"
  by (induction xs rule: admitted.induct) simp_all

text \<open>
  On times of the grid the two subtractions are exact where it matters: the test of line
  31 decides whether a stamp is at least one second old, and line 36 computes the rest of
  that second.
\<close>

lemma float_sub_test:
  assumes "t \<le> c" "on_grid c" "on_grid t"
  shows "(1 \<le> float_sub c t) = (1 \<le> c - t)"
proof (cases "1 \<le> c - t")
  case True
  then show ?thesis by (simp add: float_sub_def double_ge_1)
next
  case False
  with assms have "double (c - t) = c - t"
    by (intro double_exact on_grid_diff) simp_all
  with False show ?thesis by (simp add: float_sub_def)
qed

lemma float_sub_rest:
  assumes "t \<le> c" "c - t < 1" "on_grid c" "on_grid t"
  shows "float_sub 1 (float_sub c t) = 1 - (c - t)"
proof -
  from assms have d: "double (c - t) = c - t"
    by (intro double_exact on_grid_diff) simp_all
  have "on_grid 1" using on_grid_of_int [of 1] by simp
  with assms have "double (1 - (c - t)) = 1 - (c - t)"
    by (intro double_exact on_grid_diff) simp_all
  with d show ?thesis by (simp add: float_sub_def)
qed

lemma dropWhile_sorted_filter:
  "sorted xs \<Longrightarrow> dropWhile (\<lambda>t. 1 \<le> c - t) xs = filter (\<lambda>t. c - t < 1) (xs :: rat list)"
proof (induction xs)
  case Nil
  then show ?case by simp
next
  case (Cons x xs)
  show ?case
  proof (cases "1 \<le> c - x")
    case True
    with Cons show ?thesis by simp
  next
    case False
    with Cons.prems have "\<forall>t\<in>set xs. c - t < 1" by auto
    then have "filter (\<lambda>t. c - t < 1) xs = xs" by (simp add: filter_True)
    with False show ?thesis by simp
  qed
qed

text \<open>Line 31 and 32: pruning keeps the stamps less than one second old.\<close>

lemma prune_filter:
  assumes "sorted ts" "list_all on_grid ts" "list_all (\<lambda>t. t \<le> c) ts" "on_grid c"
  shows "dropWhile (\<lambda>t. 1 \<le> float_sub c t) ts = filter (\<lambda>t. c - t < 1) ts"
proof -
  have "dropWhile (\<lambda>t. 1 \<le> float_sub c t) ts = dropWhile (\<lambda>t. 1 \<le> c - t) ts"
    using assms(2-4) by (intro dropWhile_cong refl float_sub_test) (auto simp: list_all_iff)
  with assms(1) show ?thesis by (simp add: dropWhile_sorted_filter)
qed

lemma filter_later:
  assumes "T \<le> (T' :: rat)"
  shows "filter (\<lambda>t. T' - t < 1) (filter (\<lambda>t. T - t < 1) xs) = filter (\<lambda>t. T' - t < 1) xs"
proof -
  have "(T - t < 1 \<and> T' - t < 1) = (T' - t < 1)" for t
    using assms by auto
  then show ?thesis by simp
qed

lemma filter_later_eq:
  assumes "T \<le> (T' :: rat)"
    and "filter (\<lambda>t. T - t < 1) xs = filter (\<lambda>t. T - t < 1) ys"
  shows "filter (\<lambda>t. T' - t < 1) xs = filter (\<lambda>t. T' - t < 1) ys"
  using filter_later [OF assms(1), of xs] filter_later [OF assms(1), of ys] assms(2)
  by simp

lemma length_filter_later:
  assumes "T \<le> (T' :: rat)"
  shows "length (filter (\<lambda>t. T' - t < 1) xs) \<le> length (filter (\<lambda>t. T - t < 1) xs)"
  using filter_later [OF assms, of xs] length_filter_le
  by metis

text \<open>Line 41, after the pruning at the reading \<open>c\<close> and a wait that ended in \<open>wx\<close>.\<close>

lemma record_request_inv:
  assumes mono: "\<forall>k. 0 \<le> elapsed env k \<and> on_grid (elapsed env k)"
    and inv: "limiter_inv self w"
    and c: "now w \<le> c" "c \<le> now wx"
    and grid: "on_grid (now wx)"
    and adm: "admitted (trace wx) = admitted (trace w)"
    and T': "T' = now wx + elapsed env (ticks wx)"
    and cnt: "int (length (filter (\<lambda>t. T' - t < 1)
                (filter (\<lambda>t. c - t < 1) (request_times self))))
              < max_requests_per_second self"
  shows "limiter_inv
           (self\<lparr>request_times := filter (\<lambda>t. c - t < 1) (request_times self) @ [T']\<rparr>)
           ((tick env 0 wx)\<lparr>trace := trace wx @ [Admitted T']\<rparr>)"
proof -
  let ?ts = "request_times self"
  let ?A = "admitted (trace w)"
  from mono have e: "0 \<le> elapsed env (ticks wx)" "on_grid (elapsed env (ticks wx))"
    by blast+
  with T' c have le: "now w \<le> T'" "c \<le> T'" by simp_all
  from e(2) grid T' have gT: "on_grid T'" by (simp add: on_grid_add)
  from inv have pos: "0 < max_requests_per_second self"
    and srt: "sorted ?ts"
    and ts_grid: "list_all on_grid ?ts"
    and ts_le: "list_all (\<lambda>t. t \<le> now w) ?ts"
    and A_le: "list_all (\<lambda>t. t \<le> now w) ?A"
    and eq: "filter (\<lambda>t. now w - t < 1) ?A = filter (\<lambda>t. now w - t < 1) ?ts"
    by (simp_all add: limiter_inv_def)
  have ts_le': "list_all (\<lambda>t. t \<le> T') ?ts"
    using ts_le le(1) by (auto simp: list_all_iff)
  have A_le': "list_all (\<lambda>t. t \<le> T') ?A"
    using A_le le(1) by (auto simp: list_all_iff)
  have s: "sorted (filter (\<lambda>t. c - t < 1) ?ts @ [T'])"
    using srt ts_le' sorted_wrt_filter [of "(\<le>)" ?ts "\<lambda>t. c - t < 1"]
    by (auto simp: sorted_append list_all_iff)
  have g: "list_all on_grid (filter (\<lambda>t. c - t < 1) ?ts @ [T'])"
    using ts_grid gT by (auto simp: list_all_iff)
  have f1: "filter (\<lambda>t. T' - t < 1) (filter (\<lambda>t. c - t < 1) ?ts) = filter (\<lambda>t. T' - t < 1) ?ts"
    by (rule filter_later [OF le(2)])
  have f2: "filter (\<lambda>t. T' - t < 1) ?A = filter (\<lambda>t. T' - t < 1) ?ts"
    by (rule filter_later_eq [OF le(1) eq])
  have now': "now ((tick env 0 wx)\<lparr>trace := trace wx @ [Admitted T']\<rparr>) = T'"
    using T' by (simp add: tick_simps)
  show ?thesis
    unfolding limiter_inv_def now'
    using pos s g gT ts_le' A_le' f1 f2 cnt
    by (simp add: admitted_append adm list_all_iff)
qed

text \<open>One call of \<^verbatim>\<open>wait_if_needed\<close> keeps the invariant.\<close>

lemma wait_if_needed_inv:
  assumes mono: "\<forall>k. 0 \<le> elapsed env k \<and> on_grid (elapsed env k)"
    and inv: "limiter_inv self w"
  shows "\<exists>self' w'. wait_if_needed env self w = (Inr (), self', w')
           \<and> limiter_inv self' w'
           \<and> max_requests_per_second self' = max_requests_per_second self"
proof -
  let ?ct = "now w + elapsed env (ticks w)"
  let ?w1 = "tick env 0 w"
  let ?ts = "request_times self"
  let ?ts1 = "filter (\<lambda>t. ?ct - t < 1) ?ts"
  from inv have pos: "0 < max_requests_per_second self" and srt: "sorted ?ts"
    and gnow: "on_grid (now w)" and ts_grid: "list_all on_grid ?ts"
    and ts_le: "list_all (\<lambda>t. t \<le> now w) ?ts"
    and bound: "int (length (filter (\<lambda>t. now w - t < 1) ?ts)) \<le> max_requests_per_second self"
    by (simp_all add: limiter_inv_def)
  from mono have e0: "0 \<le> elapsed env (ticks w)" and g0: "on_grid (elapsed env (ticks w))"
    by blast+
  from e0 have ge: "now w \<le> ?ct" by simp
  from gnow g0 have gct: "on_grid ?ct" by (rule on_grid_add)
  have ts_le_ct: "list_all (\<lambda>t. t \<le> ?ct) ?ts"
    using ts_le ge by (auto simp: list_all_iff)
  have prune: "dropWhile (\<lambda>t. 1 \<le> float_sub ?ct t) ?ts = ?ts1"
    by (rule prune_filter [OF srt ts_grid ts_le_ct gct])
  have len1: "int (length ?ts1) \<le> max_requests_per_second self"
    using length_filter_later [OF ge, of ?ts] bound by linarith
  have gw1: "on_grid (now ?w1)" using gct by (simp add: tick_simps)
  show ?thesis
  proof (cases "int (length ?ts1) \<ge> max_requests_per_second self")
    case False
    let ?T' = "now ?w1 + elapsed env (ticks ?w1)"
    have cnt: "int (length (filter (\<lambda>t. ?T' - t < 1) ?ts1)) < max_requests_per_second self"
      using False length_filter_le [of "\<lambda>t. ?T' - t < 1" ?ts1] by linarith
    have "limiter_inv (self\<lparr>request_times := ?ts1 @ [?T']\<rparr>)
            ((tick env 0 ?w1)\<lparr>trace := trace ?w1 @ [Admitted ?T']\<rparr>)"
      by (rule record_request_inv [OF mono inv ge _ gw1 _ refl cnt]) (simp_all add: tick_simps)
    moreover have "wait_if_needed env self w =
        (Inr (), self\<lparr>request_times := ?ts1 @ [?T']\<rparr>,
         (tick env 0 ?w1)\<lparr>trace := trace ?w1 @ [Admitted ?T']\<rparr>)"
      using False
      by (simp add: wait_if_needed_def time_time_eq prune record_request_eq tick_simps)
    ultimately show ?thesis by simp
  next
    case True
    with pos obtain t0 rest where ts1: "?ts1 = t0 # rest"
      by (cases ?ts1) auto
    then have mem: "t0 \<in> set ?ts1" by simp
    then have t0: "?ct - t0 < 1" by simp
    from mem ts_le_ct ts_grid have t0_le: "t0 \<le> ?ct" and t0_grid: "on_grid t0"
      by (auto simp: list_all_iff)
    let ?d = "1 - (?ct - t0)"
    have rest: "float_sub 1 (float_sub ?ct t0) = ?d"
      by (rule float_sub_rest [OF t0_le t0 gct t0_grid])
    let ?w2 = "time_sleep env RateLimit ?d ?w1"
    let ?T' = "now ?w2 + elapsed env (ticks ?w2)"
    from mono have e1: "0 \<le> elapsed env (ticks ?w1)" and g1: "on_grid (elapsed env (ticks ?w1))"
      and e2: "0 \<le> elapsed env (ticks ?w2)"
      by blast+
    have now2: "now ?w2 = t0 + 1 + elapsed env (ticks ?w1)"
      by (simp add: time_sleep_simps tick_simps)
    have "on_grid (t0 + 1 + elapsed env (ticks ?w1))"
      using t0_grid g1 on_grid_of_int [of 1] by (intro on_grid_add) simp_all
    then have gw2: "on_grid (now ?w2)" by (simp only: now2)
    have far: "\<not> ?T' - t0 < 1"
      using now2 e1 e2 by simp
    have "length (filter (\<lambda>t. ?T' - t < 1) ?ts1) \<le> length rest"
      using far length_filter_le [of "\<lambda>t. ?T' - t < 1" rest] by (simp add: ts1)
    moreover have "int (length rest) < max_requests_per_second self"
      using len1 by (simp add: ts1)
    ultimately have cnt:
      "int (length (filter (\<lambda>t. ?T' - t < 1) ?ts1)) < max_requests_per_second self"
      by linarith
    have c2: "?ct \<le> now ?w2"
      using now2 e1 t0 by simp
    have "limiter_inv (self\<lparr>request_times := ?ts1 @ [?T']\<rparr>)
            ((tick env 0 ?w2)\<lparr>trace := trace ?w2 @ [Admitted ?T']\<rparr>)"
      by (rule record_request_inv [OF mono inv ge c2 gw2 _ refl cnt])
         (simp add: time_sleep_simps tick_simps admitted_append)
    moreover have "wait_if_needed env self w =
        (Inr (), self\<lparr>request_times := ?ts1 @ [?T']\<rparr>,
         (tick env 0 ?w2)\<lparr>trace := trace ?w2 @ [Admitted ?T']\<rparr>)"
      using True t0 ts1
      by (simp add: wait_if_needed_def time_time_eq prune rest record_request_eq tick_simps Let_def)
    ultimately show ?thesis by simp
  qed
qed

lemma fresh_limiter_inv:
  assumes "request_times self = []" "admitted (trace w) = []" "on_grid (now w)"
    and "0 < max_requests_per_second self"
  shows "limiter_inv self w"
  using assms by (simp add: limiter_inv_def)

lemma acquire_n_inv:
  assumes mono: "\<forall>k. 0 \<le> elapsed env k \<and> on_grid (elapsed env k)"
    and inv: "limiter_inv self w"
  shows "\<exists>self' w'. acquire_n env n self w = (Inr (), self', w')
           \<and> limiter_inv self' w'
           \<and> max_requests_per_second self' = max_requests_per_second self"
proof (induction n)
  case 0
  from inv show ?case by simp
next
  case (Suc n)
  then obtain self1 w1 where
    n: "acquire_n env n self w = (Inr (), self1, w1)" "limiter_inv self1 w1"
      "max_requests_per_second self1 = max_requests_per_second self"
    by blast
  from wait_if_needed_inv [OF mono n(2)] obtain self' w' where
    "wait_if_needed env self1 w1 = (Inr (), self', w')" "limiter_inv self' w'"
    "max_requests_per_second self' = max_requests_per_second self1"
    by blast
  with n show ?case by simp
qed

lemma wait_if_needed_no_capacity:
  assumes "max_requests_per_second self \<le> 0" "request_times self = []"
  shows "fst (wait_if_needed env self w) = Inl IndexError"
  using assms by (simp add: wait_if_needed_def time_time_eq)

lemma acquire_n_no_capacity:
  assumes "max_requests_per_second self \<le> 0" "request_times self = []"
  shows "fst (acquire_n env (Suc n) self w) = Inl IndexError"
proof (induction n)
  case 0
  from assms show ?case by (simp add: wait_if_needed_no_capacity)
next
  case (Suc n)
  then show ?case
    by (cases "acquire_n env (Suc n) self w") (simp del: acquire_n.simps add: acquire_n.simps(2) [of env "Suc n"])
qed

lemma limiter_inv_window:
  assumes "limiter_inv self w" "now w \<le> T"
  shows "int (length (filter (in_window T) (admitted (trace w))))
           \<le> max_requests_per_second self"
proof -
  let ?A = "admitted (trace w)"
  from assms(1) have le: "list_all (\<lambda>t. t \<le> now w) ?A"
    and eq: "filter (\<lambda>t. now w - t < 1) ?A = filter (\<lambda>t. now w - t < 1) (request_times self)"
    and bound: "int (length (filter (\<lambda>t. now w - t < 1) (request_times self)))
                  \<le> max_requests_per_second self"
    by (simp_all add: limiter_inv_def)
  have "filter (in_window T) ?A = filter (\<lambda>t. T - t < 1) ?A"
    using le assms(2) by (intro filter_cong) (auto simp: in_window_def list_all_iff)
  then have "length (filter (in_window T) ?A) \<le> length (filter (\<lambda>t. now w - t < 1) ?A)"
    using length_filter_later [OF assms(2), of ?A] by simp
  with eq bound show ?thesis by simp
qed

text \<open>
  Claim C1. Take a limiter with an empty deque and call \<^verbatim>\<open>wait_if_needed\<close> any number of
  times in sequence, with any time passing before, between and inside the calls. The clock
  never runs backwards, a sleep lasts at least as long as asked, and the readings of the
  clock are whole multiples of \<open>1 / 2 ^ 53\<close>, as the doubles of at least \<open>1 / 2\<close> are: the
  readings of a wall clock, in seconds since 1970. Whenever a call returns, at that moment
  and at every later moment \<open>T\<close> before the next admission, the requests admitted within
  the second that ends at \<open>T\<close> are at most \<^verbatim>\<open>max_requests_per_second\<close>. With a positive
  ceiling every call returns (with a ceiling that is not positive the first call raises
  \<^verbatim>\<open>IndexError\<close> on line 36). Below \<open>1 / 2\<close> the rounding of line 31 can take a stamp less
  than a second old for one a second old, which the hypothesis on the readings excludes.
\<close>

theorem rate_limiter_window:
  assumes "\<forall>k. 0 \<le> elapsed env k \<and> on_grid (elapsed env k)"
    and "on_grid (now w)"
    and "request_times self = []" and "admitted (trace w) = []"
    and "acquire_n env (Suc n) self w = (r, self', w')"
  shows "(0 < max_requests_per_second self \<longrightarrow> r = Inr ())
         \<and> (r = Inr () \<longrightarrow> now w' \<le> T \<longrightarrow>
              int (length (filter (in_window T) (admitted (trace w'))))
                \<le> max_requests_per_second self)"
proof (cases "0 < max_requests_per_second self")
  case True
  with assms(2-4) have "limiter_inv self w" by (simp add: fresh_limiter_inv)
  from acquire_n_inv [OF assms(1) this, of "Suc n"] assms(5)
  have "r = Inr ()" "limiter_inv self' w'"
    "max_requests_per_second self' = max_requests_per_second self"
    by auto
  with limiter_inv_window [of self' w' T] show ?thesis by simp
next
  case False
  with acquire_n_no_capacity [of self env n w] assms(3,5) have "r = Inl IndexError"
    by simp
  with False show ?thesis by simp
qed

theorem rate_limiter_window_witness:
  "(\<forall>k. 0 \<le> elapsed slow k \<and> on_grid (elapsed slow k))
   \<and> on_grid (now world_2023)
   \<and> acquire_n slow 3 limiter2 world_2023
       = (Inr (), limiter2\<lparr>request_times := [3400000001 / 2, 1700000001, 1700000002]\<rparr>,
          \<lparr>now = 1700000002, ticks = 7, calls = 0,
           trace = [Admitted (3400000001 / 2), Admitted 1700000001,
                    Sleep RateLimit (1 / 4), Admitted 1700000002]\<rparr>)
   \<and> int (length (filter (in_window 1700000002)
                     [3400000001 / 2, 1700000001, 1700000002])) \<le> 2"
proof -
  have grid: "on_grid (1 / 4)" "on_grid (3 / 4)" "on_grid 1700000000"
    by (simp_all add: on_grid_def)
  have d: "double (1 / 4) = 1 / 4" "double (3 / 4) = 3 / 4"
    by (rule double_exact; simp add: grid)+
  have m: "\<forall>k. 0 \<le> elapsed slow k \<and> on_grid (elapsed slow k)"
    by (simp add: slow_def grid)
  have g: "on_grid (now world_2023)"
    by (simp add: world_2023_def grid)
  have f: "request_times limiter2 = []" "admitted (trace world_2023) = []"
    by (simp_all add: limiter2_def world_2023_def)
  have run: "acquire_n slow (Suc 2) limiter2 world_2023
      = (Inr (), limiter2\<lparr>request_times := [3400000001 / 2, 1700000001, 1700000002]\<rparr>,
         \<lparr>now = 1700000002, ticks = 7, calls = 0,
          trace = [Admitted (3400000001 / 2), Admitted 1700000001,
                   Sleep RateLimit (1 / 4), Admitted 1700000002]\<rparr>)"
    by (simp add: eval_nat_numeral wait_if_needed_def time_time_def record_request_def
          tick_def time_sleep_def slow_def world_2023_def limiter2_def Let_def float_sub_def d)
  from rate_limiter_window [OF m g f run, of 1700000002] m g run show ?thesis
    by (simp add: limiter2_def eval_nat_numeral)
qed

text \<open>
  Why the readings are taken on the grid. With a first stamp of \<open>1 / 2 ^ 60\<close> and a second
  call at the reading 1, the difference of line 31 rounds to 1: the stamp is pruned though
  it is less than one second old, the second request is admitted without a sleep, and the
  second that ends at 1 holds two requests under the ceiling 1. No clock that counts the
  seconds since 1970 reads such a time.
\<close>

lemma below_grid:
  "acquire_n early 2 limiter1 world0
     = (Inr (), limiter1\<lparr>request_times := [1]\<rparr>,
        \<lparr>now = 1, ticks = 4, calls = 0, trace = [Admitted (1 / 2 ^ 60), Admitted 1]\<rparr>)"
  by (simp add: eval_nat_numeral wait_if_needed_def time_time_def record_request_def
          tick_def time_sleep_def early_def world0_def limiter1_def Let_def float_sub_def double_below_one)

lemma below_grid_window:
  "length (filter (in_window 1) [1 / 2 ^ 60, 1]) = 2"
  by (simp add: in_window_def)

section \<open>Lookups of a list of words\<close>

lemma length_lookups: "length (lookups env self words w) = length words"
  by (induction words arbitrary: self w) (auto split: prod.splits)

lemma definitions_loop_caught:
  assumes "list_all caught (lookups env self words w)"
  shows "definitions_loop env self words acc w =
           (Inr (acc @ map slot (lookups env self words w)), after_lookups env self words w)"
  using assms
proof (induction words arbitrary: self acc w)
  case Nil
  then show ?case by simp
next
  case (Cons word words)
  obtain r self' w' where g: "get_definition env self word w = (r, self', w')"
    by (cases "get_definition env self word w") auto
  with Cons.prems have c: "caught r" and rest: "list_all caught (lookups env self' words w')"
    by simp_all
  from c consider d where "r = Inr d" | wd n c where "r = Inl (DictionaryServiceError wd n c)"
    by (auto simp: caught_def split: sum.splits exc.splits)
  then show ?case
  proof cases
    case 1
    with g Cons.IH [OF rest, of "acc @ [d]"] show ?thesis by (simp add: slot_def)
  next
    case 2
    with g Cons.IH [OF rest, of "acc @ [PyNone]"] show ?thesis by (simp add: slot_def)
  qed
qed

lemma definitions_loop_append:
  assumes "definitions_loop env self pre acc w = (Inr ds, self1, w1)"
  shows "definitions_loop env self (pre @ rest) acc w = definitions_loop env self1 rest ds w1"
  using assms
proof (induction pre arbitrary: self acc w)
  case Nil
  then show ?case by simp
next
  case (Cons word pre)
  show ?case
  proof (cases "get_definition env self word w")
    case (fields r self' w')
    with Cons show ?thesis
      by (cases r) (auto split: exc.splits)
  qed
qed

lemma definitions_loop_append_raises:
  assumes "definitions_loop env self pre acc w = (Inl e, self1, w1)"
  shows "definitions_loop env self (pre @ rest) acc w = (Inl e, self1, w1)"
  using assms
proof (induction pre arbitrary: self acc w)
  case Nil
  then show ?case by simp
next
  case (Cons word pre)
  show ?case
  proof (cases "get_definition env self word w")
    case (fields r self' w')
    with Cons show ?thesis
      by (cases r) (auto split: exc.splits)
  qed
qed

text \<open>
  Claim C9, amended. For every list of words of which each lookup, made in the order of the
  list on the state the lookups before it left, returns or raises
  \<^verbatim>\<open>DictionaryServiceError\<close>, \<^verbatim>\<open>get_definitions\<close> returns a list with exactly one slot per
  word, in the order of the words: the value of the lookup that returned, \<^verbatim>\<open>None\<close> for the
  lookup that raised; all the lookups are made. (As stated, for every list of words, the
  claim fails for a list with a word that is \<^verbatim>\<open>None\<close> or blank: no list is returned.)
\<close>

theorem batch_slots:
  assumes "list_all caught (lookups env self words w)"
  shows "get_definitions env self words w =
           (Inr (map slot (lookups env self words w)), after_lookups env self words w)
         \<and> length (map slot (lookups env self words w)) = length words"
  using definitions_loop_caught [OF assms, of "[]"]
  by (simp add: get_definitions_def length_lookups)

theorem batch_slots_witness:
  "list_all caught (lookups
       (scripted [Returns (http_response 200 (Inr (one_definition ''A''))),
                  Returns (http_response 400 (Inr PyNone))]
          (Returns (http_response 200 (Inr (one_definition ''C'')))))
       service0 [Some ''a'', Some ''bad'', Some ''c''] world0)
   \<and> fst (get_definitions
       (scripted [Returns (http_response 200 (Inr (one_definition ''A''))),
                  Returns (http_response 400 (Inr PyNone))]
          (Returns (http_response 200 (Inr (one_definition ''C'')))))
       service0 [Some ''a'', Some ''bad'', Some ''c''] world0)
       = Inr [PyStr ''A'', PyNone, PyStr ''C'']"
proof -
  let ?env = "scripted [Returns (http_response 200 (Inr (one_definition ''A''))),
                        Returns (http_response 400 (Inr PyNone))]
                (Returns (http_response 200 (Inr (one_definition ''C''))))"
  let ?words = "[Some ''a'', Some ''bad'', Some ''c'']"
  have l: "lookups ?env service0 ?words world0 =
      [Inr (PyStr ''A''),
       Inl (DictionaryServiceError ''bad'' 4 (Some (RequestException (Some 400)))),
       Inr (PyStr ''C'')]"
    by (simp add: run_simps extract_definition_eq definition_field_def)
  then have c: "list_all caught (lookups ?env service0 ?words world0)"
    by (simp add: caught_def)
  from batch_slots [OF c] l c show ?thesis
    by (simp add: slot_def)
qed

text \<open>
  A list whose second word is \<^verbatim>\<open>None\<close>: \<^verbatim>\<open>get_definitions\<close> raises \<^verbatim>\<open>ValueError\<close> and
  returns no list, after the single transport call of the first word.
\<close>

theorem batch_slots_counterexample:
  "fst (get_definitions (always (Returns (http_response 200 (Inr (one_definition ''A'')))))
         service0 [Some ''a'', None, Some ''c''] world0)
     = Inl (ValueError ''Word cannot be None'')
   \<and> calls (snd (snd (get_definitions (always (Returns (http_response 200 (Inr (one_definition ''A'')))))
         service0 [Some ''a'', None, Some ''c''] world0))) = 1"
  by (simp add: run_simps extract_definition_eq definition_field_def)

text \<open>
  Claim C10. For a list with a word that is \<^verbatim>\<open>None\<close>, empty or made of whitespace only,
  \<^verbatim>\<open>get_definitions\<close> returns no list: it raises. When the words before that word are
  processed without an exception leaving the loop, what is raised is the \<^verbatim>\<open>ValueError\<close> of
  that word, in the state those words left: their results are discarded and nothing is
  done for the words after it.
\<close>

theorem batch_aborts_on_blank_word:
  assumes "blank bad"
  shows "(\<exists>e. fst (get_definitions env self (pre @ bad # post) w) = Inl e)
         \<and> (\<forall>ds self1 w1.
               get_definitions env self pre w = (Inr ds, self1, w1) \<longrightarrow>
               get_definitions env self (pre @ bad # post) w
                 = (Inl (ValueError (if bad = None then ''Word cannot be None''
                                     else ''Word cannot be empty'')), self1, w1))"
proof -
  have stop: "definitions_loop env s (bad # post) ds v =
      (Inl (ValueError (if bad = None then ''Word cannot be None''
                        else ''Word cannot be empty'')), s, v)" for s ds v
    by (simp add: get_definition_blank [OF assms])
  obtain r self1 w1 where p: "definitions_loop env self pre [] w = (r, self1, w1)"
    by (cases "definitions_loop env self pre [] w") auto
  show ?thesis
  proof (cases r)
    case (Inl e)
    with p definitions_loop_append_raises [of env self pre "[]" w e self1 w1 "bad # post"]
    show ?thesis by (simp add: get_definitions_def)
  next
    case (Inr ds)
    with p definitions_loop_append [of env self pre "[]" w ds self1 w1 "bad # post"] stop
    show ?thesis by (simp add: get_definitions_def)
  qed
qed

theorem batch_aborts_on_blank_word_witness:
  "blank (Some '''')
   \<and> fst (get_definitions (always (Returns (http_response 200 (Inr (one_definition ''A'')))))
        service0 [Some ''a''] world0) = Inr [PyStr ''A'']
   \<and> fst (get_definitions (always (Returns (http_response 200 (Inr (one_definition ''A'')))))
        service0 [Some ''a'', Some '''', Some ''c''] world0)
       = Inl (ValueError ''Word cannot be empty'')
   \<and> calls (snd (snd (get_definitions (always (Returns (http_response 200 (Inr (one_definition ''A'')))))
        service0 [Some ''a'', Some '''', Some ''c''] world0))) = 1"
proof -
  let ?env = "always (Returns (http_response 200 (Inr (one_definition ''A''))))"
  have b: "blank (Some '''')" by (simp add: blank_def)
  have pre: "get_definitions ?env service0 [Some ''a''] world0 =
      (Inr [PyStr ''A''],
       service0\<lparr>rate_limiter := \<lparr>max_requests_per_second = 10, request_times = [0]\<rparr>\<rparr>,
       \<lparr>now = 0, ticks = 3, calls = 1,
        trace = [Admitted 0, Get ''https://api.dictionaryapi.dev/api/v2/entries/en/a'']\<rparr>)"
    by (simp add: run_simps extract_definition_eq definition_field_def)
  from batch_aborts_on_blank_word [OF b, of ?env service0 "[Some ''a'']" "[Some ''c'']" world0] pre b
  show ?thesis by simp
qed

end
